theory Spec2Isabelle
  imports Complex_Main
begin

section \<open>Numbers and optional properties\<close>

text \<open>
  A JavaScript number is a binary64 floating-point number. The model gives a finite
  number by its exact rational value and keeps the three values that are not finite
  apart, since \<^verbatim>\<open>Number("N/A")\<close> is \<^verbatim>\<open>NaN\<close> and \<^verbatim>\<open>JSON.stringify\<close> treats these
  values specially. The sign of zero is not modelled.
\<close>

datatype number = Fin rat | NaN | PosInfinity | NegInfinity

text \<open>
  An arithmetic operation rounds its exact result to binary64: with 53 significant bits
  at the exponent of the result, or at the least exponent -1022 below it, to the nearest
  such value and to the even one of two nearest, and to an infinity when the rounded value
  has left the range. \<open>bits n\<close> is the number of binary digits of \<open>n\<close>, and
  \<open>floor_log2 a\<close> the exponent \<open>e\<close> with \<open>2\<^sup>e \<le> a < 2\<^sup>e\<^sup>+\<^sup>1\<close> of a positive \<open>a\<close>.
\<close>

fun bits :: "nat \<Rightarrow> nat" where
  "bits n = (if n = 0 then 0 else Suc (bits (n div 2)))"

declare bits.simps [simp del]

definition pow2 :: "int \<Rightarrow> rat" where
  "pow2 e = (if 0 \<le> e then 2 ^ nat e else 1 / 2 ^ nat (- e))"

definition floor_log2 :: "rat \<Rightarrow> int" where
  "floor_log2 a =
     (if 1 \<le> a then int (bits (nat \<lfloor>a\<rfloor>)) - 1 else - int (bits (nat (\<lceil>1 / a\<rceil> - 1))))"

definition round_half_even :: "rat \<Rightarrow> int" where
  "round_half_even m =
     (let f = \<lfloor>m\<rfloor>; d = m - of_int f
      in if d < 1 / 2 then f else if 1 / 2 < d then f + 1 else if even f then f else f + 1)"

definition binary64 :: "rat \<Rightarrow> number" where
  "binary64 x =
     (if x = 0 then Fin 0
      else let a = \<bar>x\<bar>;
               q = pow2 (max (floor_log2 a) (- 1022) - 52);
               y = of_int (round_half_even (a / q)) * q
           in if 2 ^ 1024 \<le> y then (if 0 < x then PosInfinity else NegInfinity)
              else Fin (if 0 < x then y else - y))"

text \<open>The operator \<^verbatim>\<open>+\<close> on two numbers.\<close>

fun num_add :: "number \<Rightarrow> number \<Rightarrow> number" where
  "num_add (Fin a) (Fin b) = binary64 (a + b)"
| "num_add NaN _ = NaN"
| "num_add _ NaN = NaN"
| "num_add PosInfinity NegInfinity = NaN"
| "num_add NegInfinity PosInfinity = NaN"
| "num_add PosInfinity _ = PosInfinity"
| "num_add _ PosInfinity = PosInfinity"
| "num_add NegInfinity _ = NegInfinity"
| "num_add _ NegInfinity = NegInfinity"

text \<open>The operator \<^verbatim>\<open>/\<close> on two numbers; a finite zero divisor counts as positive zero.\<close>

fun num_div :: "number \<Rightarrow> number \<Rightarrow> number" where
  "num_div (Fin a) (Fin b) =
     (if b = 0 then (if a = 0 then NaN else if 0 < a then PosInfinity else NegInfinity)
      else binary64 (a / b))"
| "num_div NaN _ = NaN"
| "num_div _ NaN = NaN"
| "num_div (Fin a) _ = Fin 0"
| "num_div PosInfinity (Fin b) = (if b < 0 then NegInfinity else PosInfinity)"
| "num_div NegInfinity (Fin b) = (if b < 0 then PosInfinity else NegInfinity)"
| "num_div _ _ = NaN"

text \<open>
  A property declared optional (\<^verbatim>\<open>runtime?: number\<close>) reads as \<^verbatim>\<open>undefined\<close> when it is
  absent and as its value otherwise; an entry read back from storage can also hold
  \<^verbatim>\<open>null\<close>, which the type declaration does not rule out at run time.
\<close>

datatype 'a optional = Undefined | Null | Val 'a

text \<open>The operator \<^verbatim>\<open>??\<close>: the right operand replaces \<^verbatim>\<open>undefined\<close> and \<^verbatim>\<open>null\<close>.\<close>

fun nullish :: "'a optional \<Rightarrow> 'a \<Rightarrow> 'a" where
  "nullish (Val v) d = v"
| "nullish Undefined d = d"
| "nullish Null d = d"

section \<open>The data model of the application\<close>

record Movie =
  imdbID :: "string optional"
  Title :: "string optional"
  Year :: "string optional"
  Poster :: "string optional"

text \<open>The detail record of one movie, as the remote lookup returns it.\<close>

record MovieDetails = Movie +
  Runtime :: "string optional"
  imdbRating :: "string optional"
  Plot :: "string optional"
  Released :: "string optional"
  Actors :: "string optional"
  Director :: "string optional"
  Genre :: "string optional"

text \<open>
  The state of one mounted \<^verbatim>\<open>MovieDetails\<close> component: its three state variables and
  the counter it keeps in a ref.
\<close>

record Details =
  movie :: MovieDetails
  isLoading :: bool
  userRating :: number
  countRef :: nat

record WatchedMovie = Movie +
  runtime :: "number optional"
  imdbRating :: "number optional"
  userRating :: "number optional"
  countRatingDecisions :: "number optional"

section \<open>The mean of the watched list\<close>

text \<open>
  \<^verbatim>\<open>arr.reduce((acc, cur, i, arr) => acc + cur / arr.length, 0)\<close>: a left fold from 0;
  the callback, and with it the division, runs once for each element.
\<close>

definition average :: "number list \<Rightarrow> number" where
  "average arr = foldl (\<lambda>acc cur. num_add acc (num_div cur (Fin (of_nat (length arr))))) (Fin 0) arr"

text \<open>
  \<^verbatim>\<open>x.toFixed(2)\<close>. For a finite \<open>x\<close> the digits are those of the integer \<open>n\<close> nearest to
  \<open>100 * |x|\<close>, the larger one on a tie, after a minus sign when \<open>x < 0\<close>. From \<open>10\<^sup>2\<^sup>1\<close> on
  the method hands over to the exponent notation of \<^verbatim>\<open>ToString\<close>, which is outside this
  model: the result is \<open>None\<close> there.
\<close>

definition digit :: "nat \<Rightarrow> char" where
  "digit d = ''0123456789'' ! d"

fun digits :: "nat \<Rightarrow> string" where
  "digits n = (if n < 10 then [digit n] else digits (n div 10) @ [digit (n mod 10)])"

declare digits.simps [simp del]

fun toFixed2 :: "number \<Rightarrow> string option" where
  "toFixed2 NaN = Some ''NaN''"
| "toFixed2 PosInfinity = Some ''Infinity''"
| "toFixed2 NegInfinity = Some ''-Infinity''"
| "toFixed2 (Fin x) =
     (if 10 ^ 21 \<le> \<bar>x\<bar> then None
      else let n = nat \<lfloor>\<bar>x\<bar> * 100 + 1 / 2\<rfloor>;
               s = digits (n div 100) @ ''.'' @ [digit (n div 10 mod 10), digit (n mod 10)]
           in Some (if x < 0 then ''-'' @ s else s))"

text \<open>
  The component \<^verbatim>\<open>WatchedSummary\<close>: the three means, each over the list of one property
  with \<^verbatim>\<open>?? 0\<close> for a missing value, and what the component renders: the length of the
  list and the three means with two decimals.
\<close>

definition imdbRatings :: "WatchedMovie list \<Rightarrow> number list" where
  "imdbRatings watched = map (\<lambda>movie. nullish (imdbRating movie) (Fin 0)) watched"

definition avgImdbRating :: "WatchedMovie list \<Rightarrow> number" where
  "avgImdbRating watched = average (imdbRatings watched)"

definition userRatings :: "WatchedMovie list \<Rightarrow> number list" where
  "userRatings watched = map (\<lambda>movie. nullish (userRating movie) (Fin 0)) watched"

definition avgUserRating :: "WatchedMovie list \<Rightarrow> number" where
  "avgUserRating watched = average (userRatings watched)"

definition runtimes :: "WatchedMovie list \<Rightarrow> number list" where
  "runtimes watched = map (\<lambda>movie. nullish (runtime movie) (Fin 0)) watched"

definition avgRuntime :: "WatchedMovie list \<Rightarrow> number" where
  "avgRuntime watched = average (runtimes watched)"

record Summary =
  count :: nat
  shownImdbRating :: "string option"
  shownUserRating :: "string option"
  shownRuntime :: "string option"

definition WatchedSummary :: "WatchedMovie list \<Rightarrow> Summary" where
  "WatchedSummary watched =
     \<lparr>count = length watched,
      shownImdbRating = toFixed2 (avgImdbRating watched),
      shownUserRating = toFixed2 (avgUserRating watched),
      shownRuntime = toFixed2 (avgRuntime watched)\<rparr>"

text \<open>
  The arithmetic mean as the specification words it: the sum of the values, divided by
  their number. These are the exact sum and the exact quotient: the operations on numbers
  without the rounding.
\<close>

fun exact_add :: "number \<Rightarrow> number \<Rightarrow> number" where
  "exact_add (Fin a) (Fin b) = Fin (a + b)"
| "exact_add NaN _ = NaN"
| "exact_add _ NaN = NaN"
| "exact_add PosInfinity NegInfinity = NaN"
| "exact_add NegInfinity PosInfinity = NaN"
| "exact_add PosInfinity _ = PosInfinity"
| "exact_add _ PosInfinity = PosInfinity"
| "exact_add NegInfinity _ = NegInfinity"
| "exact_add _ NegInfinity = NegInfinity"

fun exact_div :: "number \<Rightarrow> number \<Rightarrow> number" where
  "exact_div (Fin a) (Fin b) =
     (if b = 0 then (if a = 0 then NaN else if 0 < a then PosInfinity else NegInfinity)
      else Fin (a / b))"
| "exact_div NaN _ = NaN"
| "exact_div _ NaN = NaN"
| "exact_div (Fin a) _ = Fin 0"
| "exact_div PosInfinity (Fin b) = (if b < 0 then NegInfinity else PosInfinity)"
| "exact_div NegInfinity (Fin b) = (if b < 0 then PosInfinity else NegInfinity)"
| "exact_div _ _ = NaN"

definition sum_numbers :: "number list \<Rightarrow> number" where
  "sum_numbers xs = foldl exact_add (Fin 0) xs"

definition arithmetic_mean :: "number list \<Rightarrow> number" where
  "arithmetic_mean xs = exact_div (sum_numbers xs) (Fin (of_nat (length xs)))"

text \<open>
  The sum divided by the count as a test would compute it, with the operations of the
  program.
\<close>

definition sum_divided_by_count :: "number list \<Rightarrow> number" where
  "sum_divided_by_count xs = num_div (foldl num_add (Fin 0) xs) (Fin (of_nat (length xs)))"

text \<open>
  The fold of \<open>average\<close> rounds nothing when each of its divisions and additions returns
  its exact result: \<open>unrounded n acc arr\<close> says so for the fold from \<open>acc\<close> over \<open>arr\<close>
  with the divisor \<open>n\<close>.
\<close>

fun unrounded :: "number \<Rightarrow> number \<Rightarrow> number list \<Rightarrow> bool" where
  "unrounded n acc [] = True"
| "unrounded n acc (cur # arr) =
     (num_div cur n = exact_div cur n
      \<and> num_add acc (exact_div cur n) = exact_add acc (exact_div cur n)
      \<and> unrounded n (exact_add acc (exact_div cur n)) arr)"

definition average_unrounded :: "number list \<Rightarrow> bool" where
  "average_unrounded arr = unrounded (Fin (of_nat (length arr))) (Fin 0) arr"

text \<open>
  How far the rounding can take the fold from the arithmetic mean. Each operation whose
  result stays in the range returns a value that differs from the exact result \<open>x\<close> by at
  most \<open>|x| * unit_roundoff + least_step\<close>: half a unit in the last of 53 binary places,
  or half of the least positive binary64 number \<open>2\<^sup>-\<^sup>1\<^sup>0\<^sup>7\<^sup>4\<close>. Over the \<open>n\<close> values \<open>arr\<close>,
  each finite and of absolute value at most \<open>2\<^sup>1\<^sup>0\<^sup>2\<^sup>2\<close>, this adds up to at most
  \<open>rounding_bound arr\<close>: \<open>(n + 1) / 2\<^sup>5\<^sup>2\<close> times the mean of the absolute values, and
  \<open>n / 2\<^sup>1\<^sup>0\<^sup>7\<^sup>3\<close>. \<open>within_distance b y m\<close> says that \<open>y\<close> and \<open>m\<close> are finite and differ
  by at most \<open>b\<close>.
\<close>

definition unit_roundoff :: rat where
  "unit_roundoff = 1 / 2 ^ 53"

definition least_step :: rat where
  "least_step = 1 / 2 ^ 1075"

fun in_range :: "number \<Rightarrow> bool" where
  "in_range (Fin x) = (\<bar>x\<bar> \<le> 2 ^ 1022)"
| "in_range _ = False"

fun magnitude :: "number \<Rightarrow> rat" where
  "magnitude (Fin x) = \<bar>x\<bar>"
| "magnitude _ = 0"

definition rounding_bound :: "number list \<Rightarrow> rat" where
  "rounding_bound arr =
     (of_nat (length arr) + 1) / 2 ^ 52 * (sum_list (map magnitude arr) / of_nat (length arr))
     + of_nat (length arr) / 2 ^ 1073"

fun within_distance :: "rat \<Rightarrow> number \<Rightarrow> number \<Rightarrow> bool" where
  "within_distance b (Fin y) (Fin m) = (\<bar>y - m\<bar> \<le> b)"
| "within_distance b _ _ = False"

text \<open>An entry of the watched list with the given identifier, runtime and ratings.\<close>

definition entry :: "string \<Rightarrow> rat \<Rightarrow> rat \<Rightarrow> rat \<Rightarrow> WatchedMovie" where
  "entry mid minutes imdb user =
     \<lparr>imdbID = Val mid, Title = Undefined, Year = Undefined, Poster = Undefined,
      runtime = Val (Fin minutes), imdbRating = Val (Fin imdb), userRating = Val (Fin user),
      countRatingDecisions = Val (Fin 1)\<rparr>"

text \<open>A watched list of two entries, the second without a critic rating.\<close>

definition two_entries :: "WatchedMovie list" where
  "two_entries = [entry ''tt1'' 120 (15 / 2) 8, (entry ''tt2'' 90 6 4)\<lparr>imdbRating := Undefined\<rparr>]"

section \<open>Selection and the watched list\<close>

text \<open>
  The state \<^verbatim>\<open>selectedId\<close> is a string, and the empty string stands for no selection:
  the detail view is rendered when \<^verbatim>\<open>selectedId\<close> is truthy.
\<close>

datatype SelectionState = NoSelection | Selected string

definition selection :: "string \<Rightarrow> SelectionState" where
  "selection selectedId = (if selectedId = '''' then NoSelection else Selected selectedId)"

text \<open>The updaters that the handlers pass to the state setters, applied to the current state.\<close>

definition handleSelectMovie :: "string \<Rightarrow> string \<Rightarrow> string" where
  "handleSelectMovie mid selectedId = (if selectedId = mid then '''' else mid)"

definition handleCloseMovie :: "string \<Rightarrow> string" where
  "handleCloseMovie selectedId = ''''"

definition handleAddWatched :: "WatchedMovie \<Rightarrow> WatchedMovie list \<Rightarrow> WatchedMovie list" where
  "handleAddWatched new watched = watched @ [new]"

definition handleDeleteWatched :: "string \<Rightarrow> WatchedMovie list \<Rightarrow> WatchedMovie list" where
  "handleDeleteWatched mid watched = filter (\<lambda>w. imdbID w \<noteq> Val mid) watched"

section \<open>The detail view and its fetch\<close>

text \<open>
  \<^verbatim>\<open>Number(x)\<close> for a property that holds a string or is missing. The conversion of a
  string to a number is the platform's; it is a parameter \<open>N\<close> of the model.
\<close>

fun Number :: "(string \<Rightarrow> number) \<Rightarrow> string optional \<Rightarrow> number" where
  "Number N Undefined = NaN"
| "Number N Null = Fin 0"
| "Number N (Val s) = N s"

text \<open>\<^verbatim>\<open>runtime?.split(" ")[0]\<close>: the text before the first space, \<^verbatim>\<open>undefined\<close> for a missing value.\<close>

fun first_word :: "string optional \<Rightarrow> string optional" where
  "first_word (Val s) = Val (takeWhile (\<lambda>c. c \<noteq> CHR '' '') s)"
| "first_word _ = Undefined"

text \<open>The truth value of a number, and the comparison \<^verbatim>\<open>x > 0\<close>.\<close>

fun truthy :: "number \<Rightarrow> bool" where
  "truthy (Fin x) = (x \<noteq> 0)"
| "truthy NaN = False"
| "truthy _ = True"

fun positive :: "number \<Rightarrow> bool" where
  "positive (Fin x) = (0 < x)"
| "positive PosInfinity = True"
| "positive _ = False"

text \<open>The entry that \<^verbatim>\<open>handleAdd\<close> builds from the selection and the state of the detail view.\<close>

definition newWatchedMovie :: "(string \<Rightarrow> number) \<Rightarrow> string \<Rightarrow> Details \<Rightarrow> WatchedMovie" where
  "newWatchedMovie N selectedId d =
     \<lparr>imdbID = Val selectedId,
      Title = Title (movie d),
      Year = Year (movie d),
      Poster = Poster (movie d),
      runtime = Val (Number N (first_word (Runtime (movie d)))),
      imdbRating = Val (Number N (MovieDetails.imdbRating (movie d))),
      userRating = Val (Details.userRating d),
      countRatingDecisions = Val (Fin (of_nat (countRef d)))\<rparr>"

text \<open>\<^verbatim>\<open>watched.find((w) => w.imdbID === selectedId)\<close>.\<close>

definition watchedMovie :: "WatchedMovie list \<Rightarrow> string \<Rightarrow> WatchedMovie option" where
  "watchedMovie watched selectedId = find (\<lambda>w. imdbID w = Val selectedId) watched"

text \<open>
  A request that the detail view has issued and that has not settled: the component
  instance that issued it and the identifier in its address. A fetch settles in one of
  three ways: the network fails, a response arrives whose body is not JSON, or a response
  arrives whose body parses; the HTTP status of a response is carried along.
\<close>

record request =
  issuer :: nat
  target :: string

datatype outcome = NetworkFailure | Response nat "MovieDetails option"

datatype rejection = FetchRejected | JsonRejected

text \<open>
  The state of the application: the watched list and the selection, held by \<^verbatim>\<open>App\<close>; the
  state of the detail view when it is mounted, which is when \<^verbatim>\<open>selectedId\<close> is not empty;
  and what the run time keeps: the number of detail views mounted so far, which names the
  current instance, the requests in flight by number, the number of requests issued, and
  the promise rejections that nothing has handled.
\<close>

record App =
  watched :: "WatchedMovie list"
  selectedId :: string
  details :: "Details option"
  instance_no :: nat
  inflight :: "(nat \<times> request) list"
  issued :: nat
  unhandled :: "rejection list"

definition initialDetails :: Details where
  "initialDetails =
     \<lparr>movie = \<lparr>imdbID = Undefined, Title = Undefined, Year = Undefined, Poster = Undefined,
               Runtime = Undefined, imdbRating = Undefined, Plot = Undefined,
               Released = Undefined, Actors = Undefined, Director = Undefined,
               Genre = Undefined\<rparr>,
      isLoading = False, userRating = Fin 0, countRef = 0\<rparr>"

definition initialApp :: "WatchedMovie list \<Rightarrow> App" where
  "initialApp ws =
     \<lparr>watched = ws, selectedId = '''', details = None, instance_no = 0, inflight = [],
      issued = 0, unhandled = []\<rparr>"

text \<open>
  The effect on \<^verbatim>\<open>[selectedId]\<close>: \<^verbatim>\<open>setIsLoading(true)\<close>, then the call of
  \<^verbatim>\<open>getMovieDetails\<close>, which issues the request and suspends. The effect returns no
  cleanup, and nothing cancels or marks an earlier request.
\<close>

definition selectedId_effect :: "App \<Rightarrow> App" where
  "selectedId_effect s =
     s\<lparr>details := map_option (\<lambda>d. d\<lparr>isLoading := True\<rparr>) (details s),
       inflight := inflight s @ [(issued s, \<lparr>issuer = instance_no s, target = selectedId s\<rparr>)],
       issued := issued s + 1\<rparr>"

text \<open>
  Rendering after \<^verbatim>\<open>selectedId\<close> has changed from \<open>old\<close>: an empty selection unmounts the
  detail view; a selection from none mounts a new instance with the initial state and runs
  its effect; a change from one identifier to another keeps the instance and its state
  and runs the effect again. This is the production behaviour; in development
  \<^verbatim>\<open>StrictMode\<close> runs the effect of a new instance twice, which issues a second request
  for the same identifier.
\<close>

definition render :: "string \<Rightarrow> App \<Rightarrow> App" where
  "render old s =
     (if selectedId s = old then s
      else if selectedId s = '''' then s\<lparr>details := None\<rparr>
      else if old = '''' then
        selectedId_effect (s\<lparr>details := Some initialDetails, instance_no := instance_no s + 1\<rparr>)
      else selectedId_effect s)"

text \<open>
  The continuation of \<^verbatim>\<open>getMovieDetails\<close> when its request settles. A rejected
  \<^verbatim>\<open>fetch\<close> or \<^verbatim>\<open>res.json()\<close> rejects the promise of \<^verbatim>\<open>getMovieDetails\<close>, which
  nothing awaits or catches: the two setters are not reached. Otherwise \<^verbatim>\<open>setMovie(data)\<close>
  and \<^verbatim>\<open>setIsLoading(false)\<close> run, whatever the status and whatever is selected by then;
  they change nothing when the instance that issued the request is no longer mounted.
\<close>

definition getMovieDetails_settled :: "request \<Rightarrow> outcome \<Rightarrow> App \<Rightarrow> App" where
  "getMovieDetails_settled rq out s =
     (case out of
        NetworkFailure \<Rightarrow> s\<lparr>unhandled := unhandled s @ [FetchRejected]\<rparr>
      | Response status None \<Rightarrow> s\<lparr>unhandled := unhandled s @ [JsonRejected]\<rparr>
      | Response status (Some data) \<Rightarrow>
          (case details s of
             None \<Rightarrow> s
           | Some d \<Rightarrow>
               if issuer rq = instance_no s
               then s\<lparr>details := Some (d\<lparr>movie := data, isLoading := False\<rparr>)\<rparr>
               else s))"

text \<open>
  What the user and the network can do. The rating stars and the button
  \<^verbatim>\<open>Add to list\<close> are rendered only when the detail view is not loading and the selected
  identifier is not in the watched list, the button only for a positive rating; the
  delete buttons are rendered only when nothing is selected. An event whose control
  is not rendered changes nothing.
\<close>

datatype event =
    SelectMovie string
  | CloseMovie
  | SetRating number
  | AddToList
  | DeleteWatched string
  | Settle nat outcome

definition rating_shown :: "App \<Rightarrow> Details \<Rightarrow> bool" where
  "rating_shown s d = (\<not> isLoading d \<and> watchedMovie (watched s) (selectedId s) = None)"

fun step :: "(string \<Rightarrow> number) \<Rightarrow> App \<Rightarrow> event \<Rightarrow> App" where
  "step N s (SelectMovie mid) =
     render (selectedId s) (s\<lparr>selectedId := handleSelectMovie mid (selectedId s)\<rparr>)"
| "step N s CloseMovie =
     render (selectedId s) (s\<lparr>selectedId := handleCloseMovie (selectedId s)\<rparr>)"
| "step N s (SetRating r) =
     (case details s of
        None \<Rightarrow> s
      | Some d \<Rightarrow>
          if rating_shown s d \<and> r \<noteq> Details.userRating d
          then s\<lparr>details := Some (d\<lparr>Details.userRating := r,
                   countRef := (if truthy r then countRef d + 1 else countRef d)\<rparr>)\<rparr>
          else s)"
| "step N s AddToList =
     (case details s of
        None \<Rightarrow> s
      | Some d \<Rightarrow>
          if rating_shown s d \<and> positive (Details.userRating d)
          then render (selectedId s)
                 (s\<lparr>watched := handleAddWatched (newWatchedMovie N (selectedId s) d) (watched s),
                    selectedId := handleCloseMovie (selectedId s)\<rparr>)
          else s)"
| "step N s (DeleteWatched mid) =
     (if selectedId s = '''' then s\<lparr>watched := handleDeleteWatched mid (watched s)\<rparr> else s)"
| "step N s (Settle rid out) =
     (case map_of (inflight s) rid of
        None \<Rightarrow> s
      | Some rq \<Rightarrow>
          getMovieDetails_settled rq out (s\<lparr>inflight := filter (\<lambda>p. fst p \<noteq> rid) (inflight s)\<rparr>))"

definition run :: "(string \<Rightarrow> number) \<Rightarrow> App \<Rightarrow> event list \<Rightarrow> App" where
  "run N s es = foldl (step N) s es"

text \<open>A detail record with the given identifier and title, and nothing else.\<close>

definition detail :: "string \<Rightarrow> string \<Rightarrow> MovieDetails" where
  "detail mid title = (movie initialDetails)\<lparr>imdbID := Val mid, Title := Val title\<rparr>"

text \<open>
  A conversion of strings to numbers for the examples: it agrees with the platform's on
  the unsigned decimal literals with digits before the point, such as \<^verbatim>\<open>142\<close> and
  \<^verbatim>\<open>7.5\<close>, and on \<^verbatim>\<open>N/A\<close>, which are the strings the examples convert.
\<close>

definition is_digit :: "char \<Rightarrow> bool" where
  "is_digit c = (c \<in> set ''0123456789'')"

definition natural :: "string \<Rightarrow> nat" where
  "natural s = foldl (\<lambda>a c. 10 * a + (of_char c - 48)) 0 s"

definition decimal :: "string \<Rightarrow> number" where
  "decimal s =
     (let whole = takeWhile (\<lambda>c. c \<noteq> CHR ''.'') s;
          rest = dropWhile (\<lambda>c. c \<noteq> CHR ''.'') s;
          fraction = drop 1 rest
      in if whole \<noteq> [] \<and> list_all is_digit whole \<and> list_all is_digit fraction
            \<and> (rest = [] \<or> fraction \<noteq> [])
         then binary64 (of_nat (natural whole) + of_nat (natural fraction) / 10 ^ length fraction)
         else NaN)"

text \<open>
  Two states for the examples: the application right after the first selection of an
  identifier, the request in flight; and the application with one watched entry and the
  detail view of a second movie loaded and rated 7.
\<close>

definition viewing :: "string \<Rightarrow> App" where
  "viewing a = step decimal (initialApp []) (SelectMovie a)"

definition rated :: App where
  "rated = run decimal (initialApp [entry ''tt1'' 120 8 9])
     [SelectMovie ''tt2'',
      Settle 0 (Response 200
        (Some ((detail ''tt2'' ''Two'')\<lparr>Runtime := Val ''142 min'', MovieDetails.imdbRating := Val ''7.5''\<rparr>))),
      SetRating (Fin 7)]"

text \<open>
  What holds in every state that the application reaches: the detail view is mounted
  exactly when an identifier is selected, the requests in flight have distinct numbers
  below the number of requests issued, and each was issued by an instance mounted so far.
\<close>

definition consistent :: "App \<Rightarrow> bool" where
  "consistent s =
     ((details s = None) = (selectedId s = '''')
      \<and> distinct (map fst (inflight s))
      \<and> list_all (\<lambda>p. fst p < issued s \<and> issuer (snd p) \<le> instance_no s) (inflight s))"

section \<open>Persistence\<close>

text \<open>
  The values that the state of \<^verbatim>\<open>useLocalStorageState\<close> can hold. An object is the list
  of its properties in their order, with pairwise distinct names.
\<close>

datatype jsval =
    JUndefined
  | JNull
  | JBool bool
  | JNumber number
  | JString string
  | JArray "jsval list"
  | JObject "(string \<times> jsval) list"

text \<open>
  The text under a key of the storage is modelled by its sequence of tokens: the
  punctuation and the literals of JSON, and \<open>Other\<close> for any other word, such as
  \<^verbatim>\<open>undefined\<close>. The spelling of a number and the escapes of a string are the platform's
  and are not modelled.
\<close>

datatype token =
    LBrace | RBrace | LBracket | RBracket | Colon | Comma
  | NullLit | TrueLit | FalseLit
  | NumberLit rat
  | StringLit string
  | Other string

fun separate :: "token list list \<Rightarrow> token list" where
  "separate [] = []"
| "separate [t] = t"
| "separate (t # ts) = t @ Comma # separate ts"

text \<open>
  \<^verbatim>\<open>JSON.stringify(value)\<close>: \<^verbatim>\<open>undefined\<close> has no text; a number that is not finite is
  written \<^verbatim>\<open>null\<close>; in an array \<^verbatim>\<open>undefined\<close> is written \<^verbatim>\<open>null\<close>; in an object a
  property whose value is \<^verbatim>\<open>undefined\<close> is left out.
\<close>

fun JSON_stringify :: "jsval \<Rightarrow> token list option" where
  "JSON_stringify JUndefined = None"
| "JSON_stringify JNull = Some [NullLit]"
| "JSON_stringify (JBool b) = Some [if b then TrueLit else FalseLit]"
| "JSON_stringify (JNumber (Fin q)) = Some [NumberLit q]"
| "JSON_stringify (JNumber _) = Some [NullLit]"
| "JSON_stringify (JString s) = Some [StringLit s]"
| "JSON_stringify (JArray xs) =
     Some (LBracket #
       separate (map (\<lambda>x. case JSON_stringify x of None \<Rightarrow> [NullLit] | Some t \<Rightarrow> t) xs) @ [RBracket])"
| "JSON_stringify (JObject ps) =
     Some (LBrace #
       separate (concat (map (\<lambda>p. case JSON_stringify (snd p) of None \<Rightarrow> []
                                     | Some t \<Rightarrow> [StringLit (fst p) # Colon # t]) ps)) @ [RBrace])"

text \<open>
  \<^verbatim>\<open>JSON.parse(text)\<close>, by recursive descent: a value, then nothing more. A name that
  occurs again in an object replaces the value of the property and keeps its place. The
  comparisons of lengths are always true; they make the recursion visibly terminate.
\<close>

fun define_property :: "string \<Rightarrow> jsval \<Rightarrow> (string \<times> jsval) list \<Rightarrow> (string \<times> jsval) list" where
  "define_property k v [] = [(k, v)]"
| "define_property k v (p # ps) = (if fst p = k then (k, v) # ps else p # define_property k v ps)"

function parse_value :: "token list \<Rightarrow> (jsval \<times> token list) option"
  and parse_elements :: "token list \<Rightarrow> (jsval list \<times> token list) option"
  and parse_members :: "token list \<Rightarrow> ((string \<times> jsval) list \<times> token list) option"
where
  "parse_value ts =
     (case ts of
        NullLit # r \<Rightarrow> Some (JNull, r)
      | TrueLit # r \<Rightarrow> Some (JBool True, r)
      | FalseLit # r \<Rightarrow> Some (JBool False, r)
      | NumberLit q # r \<Rightarrow> Some (JNumber (Fin q), r)
      | StringLit s # r \<Rightarrow> Some (JString s, r)
      | LBracket # RBracket # r \<Rightarrow> Some (JArray [], r)
      | LBracket # r \<Rightarrow>
          (case parse_elements r of None \<Rightarrow> None | Some (vs, r') \<Rightarrow> Some (JArray vs, r'))
      | LBrace # RBrace # r \<Rightarrow> Some (JObject [], r)
      | LBrace # r \<Rightarrow>
          (case parse_members r of None \<Rightarrow> None
           | Some (ms, r') \<Rightarrow>
               Some (JObject (foldl (\<lambda>obj m. define_property (fst m) (snd m) obj) [] ms), r'))
      | _ \<Rightarrow> None)"
| "parse_elements ts =
     (case parse_value ts of
        None \<Rightarrow> None
      | Some (v, r) \<Rightarrow>
          (case r of
             RBracket # r' \<Rightarrow> Some ([v], r')
           | Comma # r' \<Rightarrow>
               if length r' < length ts
               then (case parse_elements r' of None \<Rightarrow> None | Some (vs, r'') \<Rightarrow> Some (v # vs, r''))
               else None
           | _ \<Rightarrow> None))"
| "parse_members ts =
     (case ts of
        StringLit k # Colon # r \<Rightarrow>
          (case parse_value r of
             None \<Rightarrow> None
           | Some (v, r1) \<Rightarrow>
               (case r1 of
                  RBrace # r' \<Rightarrow> Some ([(k, v)], r')
                | Comma # r' \<Rightarrow>
                    if length r' < length ts
                    then (case parse_members r' of None \<Rightarrow> None
                          | Some (ms, r'') \<Rightarrow> Some ((k, v) # ms, r''))
                    else None
                | _ \<Rightarrow> None))
      | _ \<Rightarrow> None)"
  by pat_completeness auto
termination
  by (relation "measure (\<lambda>x. case x of Inl ts \<Rightarrow> 2 * length ts
                                | Inr (Inl ts) \<Rightarrow> 2 * length ts + 1
                                | Inr (Inr ts) \<Rightarrow> 2 * length ts + 1)") auto

declare parse_value.simps [simp del] parse_elements.simps [simp del] parse_members.simps [simp del]

datatype exception = SyntaxError

definition JSON_parse :: "token list \<Rightarrow> exception + jsval" where
  "JSON_parse text = (case parse_value text of Some (v, []) \<Rightarrow> Inr v | _ \<Rightarrow> Inl SyntaxError)"

text \<open>
  The storage maps a key to its text. The hook \<^verbatim>\<open>useLocalStorageState\<close> has two parts.
  The initialiser of its state parses the item under the key, where a missing item reads
  as \<^verbatim>\<open>null\<close> and \<^verbatim>\<open>JSON.parse\<close> turns that into the text \<^verbatim>\<open>null\<close>, and \<^verbatim>\<open>??\<close> puts
  the initial state in the place of \<^verbatim>\<open>null\<close>; an exception of the parse is not caught.
  The effect stores the text of the value, and the word \<^verbatim>\<open>undefined\<close> for a value that
  has no text.
\<close>

type_synonym storage = "string \<rightharpoonup> token list"

definition useLocalStorageState_initial :: "jsval \<Rightarrow> string \<Rightarrow> storage \<Rightarrow> exception + jsval" where
  "useLocalStorageState_initial initialState key localStorage =
     (case JSON_parse (case localStorage key of None \<Rightarrow> [NullLit] | Some text \<Rightarrow> text) of
        Inl e \<Rightarrow> Inl e
      | Inr v \<Rightarrow> Inr (if v = JNull \<or> v = JUndefined then initialState else v))"

definition useLocalStorageState_effect :: "jsval \<Rightarrow> string \<Rightarrow> storage \<Rightarrow> storage" where
  "useLocalStorageState_effect v key localStorage =
     localStorage(key \<mapsto> (case JSON_stringify v of None \<Rightarrow> [Other ''undefined''] | Some text \<Rightarrow> text))"

text \<open>
  The watched list as a value: an entry is the object that \<^verbatim>\<open>handleAdd\<close> writes, with its
  eight properties in the order of the object literal, a missing one being \<^verbatim>\<open>undefined\<close>.
\<close>

fun js_string :: "string optional \<Rightarrow> jsval" where
  "js_string Undefined = JUndefined"
| "js_string Null = JNull"
| "js_string (Val s) = JString s"

fun js_number :: "number optional \<Rightarrow> jsval" where
  "js_number Undefined = JUndefined"
| "js_number Null = JNull"
| "js_number (Val n) = JNumber n"

definition js_WatchedMovie :: "WatchedMovie \<Rightarrow> jsval" where
  "js_WatchedMovie m =
     JObject [(''imdbID'', js_string (imdbID m)), (''Title'', js_string (Title m)),
              (''Year'', js_string (Year m)), (''Poster'', js_string (Poster m)),
              (''runtime'', js_number (runtime m)), (''imdbRating'', js_number (imdbRating m)),
              (''userRating'', js_number (userRating m)),
              (''countRatingDecisions'', js_number (countRatingDecisions m))]"

definition js_watched :: "WatchedMovie list \<Rightarrow> jsval" where
  "js_watched ws = JArray (map js_WatchedMovie ws)"

text \<open>
  A value read at the type \<^verbatim>\<open>WatchedMovie[]\<close>. The type is asserted, not checked: the
  reading is \<open>None\<close> for a value of another shape. A property that an object does not have
  reads as \<^verbatim>\<open>undefined\<close>.
\<close>

definition property :: "(string \<times> jsval) list \<Rightarrow> string \<Rightarrow> jsval" where
  "property ps k = (case map_of ps k of None \<Rightarrow> JUndefined | Some v \<Rightarrow> v)"

fun as_string :: "jsval \<Rightarrow> string optional option" where
  "as_string JUndefined = Some Undefined"
| "as_string JNull = Some Null"
| "as_string (JString s) = Some (Val s)"
| "as_string _ = None"

fun as_number :: "jsval \<Rightarrow> number optional option" where
  "as_number JUndefined = Some Undefined"
| "as_number JNull = Some Null"
| "as_number (JNumber n) = Some (Val n)"
| "as_number _ = None"

fun as_WatchedMovie :: "jsval \<Rightarrow> WatchedMovie option" where
  "as_WatchedMovie (JObject ps) =
     Option.bind (as_string (property ps ''imdbID'')) (\<lambda>i.
     Option.bind (as_string (property ps ''Title'')) (\<lambda>t.
     Option.bind (as_string (property ps ''Year'')) (\<lambda>y.
     Option.bind (as_string (property ps ''Poster'')) (\<lambda>p.
     Option.bind (as_number (property ps ''runtime'')) (\<lambda>r.
     Option.bind (as_number (property ps ''imdbRating'')) (\<lambda>c.
     Option.bind (as_number (property ps ''userRating'')) (\<lambda>u.
     Option.bind (as_number (property ps ''countRatingDecisions'')) (\<lambda>n.
       Some \<lparr>imdbID = i, Title = t, Year = y, Poster = p, runtime = r, imdbRating = c,
             userRating = u, countRatingDecisions = n\<rparr>))))))))"
| "as_WatchedMovie _ = None"

fun as_watched :: "jsval \<Rightarrow> WatchedMovie list option" where
  "as_watched (JArray xs) = those (map as_WatchedMovie xs)"
| "as_watched _ = None"

text \<open>
  \<^verbatim>\<open>useLocalStorageState<WatchedMovie[]>([], "watched")\<close> in \<^verbatim>\<open>App\<close>: what the state starts
  from, and what the effect stores after the list has changed.
\<close>

definition load_watched :: "storage \<Rightarrow> exception + WatchedMovie list option" where
  "load_watched localStorage =
     (case useLocalStorageState_initial (JArray []) ''watched'' localStorage of
        Inl e \<Rightarrow> Inl e
      | Inr v \<Rightarrow> Inr (as_watched v))"

definition save_watched :: "WatchedMovie list \<Rightarrow> storage \<Rightarrow> storage" where
  "save_watched ws localStorage = useLocalStorageState_effect (js_watched ws) ''watched'' localStorage"

text \<open>
  What is left of a value after \<^verbatim>\<open>JSON.stringify\<close> and \<^verbatim>\<open>JSON.parse\<close>, and of an entry of
  the watched list: a number that is not finite has become \<^verbatim>\<open>null\<close>.
\<close>

fun revived :: "jsval \<Rightarrow> jsval" where
  "revived JUndefined = JNull"
| "revived (JNumber (Fin q)) = JNumber (Fin q)"
| "revived (JNumber _) = JNull"
| "revived (JArray xs) = JArray (map revived xs)"
| "revived (JObject ps) =
     JObject (map (\<lambda>p. (fst p, revived (snd p))) (filter (\<lambda>p. snd p \<noteq> JUndefined) ps))"
| "revived v = v"

text \<open>
  A property of an object after the same: one that was \<^verbatim>\<open>undefined\<close> is missing, and so
  reads as \<^verbatim>\<open>undefined\<close> again.
\<close>

definition reread :: "jsval \<Rightarrow> jsval" where
  "reread v = (if v = JUndefined then JUndefined else revived v)"

fun revived_number :: "number optional \<Rightarrow> number optional" where
  "revived_number (Val (Fin q)) = Val (Fin q)"
| "revived_number (Val _) = Null"
| "revived_number x = x"

definition revived_WatchedMovie :: "WatchedMovie \<Rightarrow> WatchedMovie" where
  "revived_WatchedMovie m =
     m\<lparr>runtime := revived_number (runtime m), imdbRating := revived_number (imdbRating m),
       userRating := revived_number (userRating m),
       countRatingDecisions := revived_number (countRatingDecisions m)\<rparr>"

text \<open>The entries all of whose numbers are finite, where they have one.\<close>

fun finite_number :: "number optional \<Rightarrow> bool" where
  "finite_number (Val (Fin q)) = True"
| "finite_number (Val _) = False"
| "finite_number _ = True"

definition finite_numbers :: "WatchedMovie \<Rightarrow> bool" where
  "finite_numbers m =
     (finite_number (runtime m) \<and> finite_number (imdbRating m) \<and> finite_number (userRating m)
      \<and> finite_number (countRatingDecisions m))"

text \<open>The values whose objects have pairwise distinct property names.\<close>

fun proper :: "jsval \<Rightarrow> bool" where
  "proper (JArray xs) = list_all proper xs"
| "proper (JObject ps) = (distinct (map fst ps) \<and> list_all (\<lambda>p. proper (snd p)) ps)"
| "proper _ = True"

text \<open>The tokens of an element of an array and of a member of an object.\<close>

definition element_tokens :: "jsval \<Rightarrow> token list" where
  "element_tokens x = (case JSON_stringify x of None \<Rightarrow> [NullLit] | Some t \<Rightarrow> t)"

definition member_tokens :: "string \<times> jsval \<Rightarrow> token list" where
  "member_tokens p = StringLit (fst p) # Colon # the (JSON_stringify (snd p))"

fun starts_value :: "token list \<Rightarrow> bool" where
  "starts_value [] = False"
| "starts_value (a # r) = (a \<noteq> RBracket \<and> a \<noteq> RBrace)"

section \<open>Properties\<close>

subsection \<open>Rounding to binary64\<close>

text \<open>Rounding on numerals, for the examples.\<close>

lemma bits_0: "bits 0 = 0"
  by (simp add: bits.simps)

lemma bits_Suc_0: "bits (Suc 0) = Suc 0"
  by (simp add: bits.simps [of "Suc 0"] bits.simps [of 0])

lemma bits_numeral: "bits (numeral k) = Suc (bits (numeral k div 2))"
  by (subst bits.simps) simp

lemma floor_rat_numeral: "\<lfloor>numeral a / numeral b :: rat\<rfloor> = numeral a div numeral b"
  using floor_divide_of_int_eq [of "numeral a" "numeral b", where ?'a = rat] by simp

lemma ceiling_rat_numeral: "\<lceil>numeral a / numeral b :: rat\<rceil> = - (- numeral a div numeral b)"
  using ceiling_divide_eq_div [of "numeral a" "numeral b", where ?'a = rat] by simp

lemmas binary64_eval = binary64_def floor_log2_def round_half_even_def pow2_def Let_def
  bits_0 bits_Suc_0 bits_numeral floor_rat_numeral ceiling_rat_numeral

lemma binary64_examples:
  "binary64 (1 / 10) = Fin (3602879701896397 / 2 ^ 55)"
  "binary64 (15 / 2) = Fin (15 / 2)"
  "binary64 (2 ^ 53 + 1) = Fin (2 ^ 53)"
  "binary64 (2 ^ 53 + 3) = Fin (2 ^ 53 + 4)"
  "binary64 (- (2 ^ 53 + 3)) = Fin (- (2 ^ 53 + 4))"
  by (simp_all add: binary64_eval)

text \<open>The number of binary digits, and the exponent of a positive number.\<close>

lemma bits_pos: "0 < n \<Longrightarrow> bits n = Suc (bits (n div 2))"
  by (subst bits.simps) simp

lemma bits_bounds: "0 < n \<Longrightarrow> 2 ^ (bits n - 1) \<le> n \<and> n < 2 ^ bits n"
proof (induction n rule: bits.induct)
  case (1 n)
  have e: "bits n = Suc (bits (n div 2))" using "1.prems" by (rule bits_pos)
  show ?case
  proof (cases "n div 2 = 0")
    case True
    with "1.prems" have "n = 1" by auto
    then show ?thesis by (simp add: bits_Suc_0)
  next
    case False
    with 1 have IH: "2 ^ (bits (n div 2) - 1) \<le> n div 2" "n div 2 < 2 ^ bits (n div 2)"
      by simp_all
    from False have "bits (n div 2) = Suc (bits (n div 2 div 2))" by (intro bits_pos) simp
    then have "(2::nat) ^ bits (n div 2) = 2 * 2 ^ (bits (n div 2) - 1)" by simp
    then have "(2::nat) ^ (bits n - 1) = 2 * 2 ^ (bits (n div 2) - 1)" by (simp add: e)
    also have "\<dots> \<le> 2 * (n div 2)" using IH(1) by simp
    also have "\<dots> \<le> n" by simp
    finally have lo: "2 ^ (bits n - 1) \<le> n" .
    have "n < 2 * (n div 2) + 2" by arith
    also have "\<dots> \<le> 2 * 2 ^ bits (n div 2)" using IH(2) by simp
    finally have "n < 2 ^ bits n" by (simp add: e)
    with lo show ?thesis by simp
  qed
qed

lemma bits_bounds_rat:
  assumes "0 < n"
  shows "(2::rat) ^ (bits n - 1) \<le> of_nat n" and "rat_of_nat n + 1 \<le> 2 ^ bits n"
proof -
  from bits_bounds [OF assms] have "2 ^ (bits n - 1) \<le> n" and "n + 1 \<le> 2 ^ bits n" by simp_all
  then have "rat_of_nat (2 ^ (bits n - 1)) \<le> rat_of_nat n"
    and "rat_of_nat (n + 1) \<le> rat_of_nat (2 ^ bits n)"
    by (simp_all only: of_nat_le_iff)
  then show "(2::rat) ^ (bits n - 1) \<le> of_nat n" and "rat_of_nat n + 1 \<le> 2 ^ bits n"
    by simp_all
qed

lemma pow2_pos: "0 < pow2 e"
  by (simp add: pow2_def)

lemma pow2_nat: "pow2 (int k) = 2 ^ k"
  by (simp add: pow2_def)

lemma pow2_neg_nat: "pow2 (- int k) = 1 / 2 ^ k"
  by (cases k) (simp_all add: pow2_def nat_add_distrib)

lemma floor_log2_bounds:
  assumes "0 < a"
  shows "pow2 (floor_log2 a) \<le> a \<and> a < pow2 (floor_log2 a + 1)"
proof (cases "1 \<le> a")
  case True
  define m where "m = nat \<lfloor>a\<rfloor>"
  from True have "1 \<le> \<lfloor>a\<rfloor>" by simp
  then have m: "0 < m" and fm: "\<lfloor>a\<rfloor> = int m" by (simp_all add: m_def)
  have "of_int \<lfloor>a\<rfloor> \<le> a" "a < of_int \<lfloor>a\<rfloor> + 1" by linarith+
  then have am: "rat_of_nat m \<le> a" "a < rat_of_nat m + 1" by (simp_all add: fm)
  obtain k where k: "bits m = Suc k" using bits_pos [OF m] by blast
  have e: "floor_log2 a = int k" using True by (simp add: floor_log2_def m_def [symmetric] k)
  have e1: "floor_log2 a + 1 = int (Suc k)" by (simp add: e)
  from bits_bounds_rat [OF m] have "(2::rat) ^ k \<le> of_nat m" "rat_of_nat m + 1 \<le> 2 ^ Suc k"
    by (simp_all add: k)
  with am show ?thesis unfolding e1 unfolding e pow2_nat by linarith
next
  case False
  define z where "z = \<lceil>1 / a\<rceil>"
  define c where "c = nat (z - 1)"
  from False assms have b1: "1 < 1 / a" by simp
  then have "1 < z" unfolding z_def by (simp only: less_ceiling_iff of_int_1)
  then have c: "0 < c" and fc: "z = int c + 1" by (simp_all add: c_def)
  have "of_int z - 1 < 1 / a" "1 / a \<le> of_int z" unfolding z_def by linarith+
  then have cb: "rat_of_nat c < 1 / a" "1 / a \<le> rat_of_nat c + 1" by (simp_all add: fc)
  obtain k where k: "bits c = Suc k" using bits_pos [OF c] by blast
  have e: "floor_log2 a = - int (Suc k)"
    using False by (simp add: floor_log2_def z_def [symmetric] c_def [symmetric] k)
  have e1: "floor_log2 a + 1 = - int k" by (simp add: e)
  from bits_bounds_rat [OF c] have "(2::rat) ^ k \<le> of_nat c" "rat_of_nat c + 1 \<le> 2 ^ Suc k"
    by (simp_all add: k)
  with cb have "2 ^ k < 1 / a" "1 / a \<le> 2 ^ Suc k" by linarith+
  then have "a < 1 / 2 ^ k" "1 / 2 ^ Suc k \<le> a"
    using assms by (simp_all add: field_simps)
  then show ?thesis unfolding e1 unfolding e pow2_neg_nat by simp
qed

lemma round_half_even_nearest: "\<bar>of_int (round_half_even m) - m\<bar> \<le> 1 / 2"
proof -
  have "of_int \<lfloor>m\<rfloor> \<le> m" "m < of_int \<lfloor>m\<rfloor> + 1" by linarith+
  then show ?thesis
    by (auto simp: round_half_even_def Let_def)
qed

lemma pow2_power_int: "pow2 e = 2 powi e"
  by (simp add: pow2_def power_int_def inverse_eq_divide power_one_over)

lemma pow2_mono: "a \<le> b \<Longrightarrow> pow2 a \<le> pow2 b"
  unfolding pow2_power_int by (rule power_int_increasing) simp_all

lemma pow2_diff_nat: "pow2 (e - int n) = pow2 e / 2 ^ n"
  by (simp add: pow2_power_int power_int_diff)

lemma pow2_half: "pow2 (e - 52) / 2 = pow2 (e - 53)"
  using pow2_diff_nat [of "e - 52" 1] by simp

text \<open>
  The rounded value is a multiple of the quantum at the exponent of the number and
  differs from the number by at most half the quantum.
\<close>

lemma binary64_nearest:
  assumes "binary64 x = Fin y"
  shows "\<bar>y - x\<bar> \<le> pow2 (max (floor_log2 \<bar>x\<bar>) (- 1022) - 53)"
proof (cases "x = 0")
  case True
  with assms have "y = 0" by (simp add: binary64_def)
  with True show ?thesis by (simp add: less_imp_le [OF pow2_pos])
next
  case False
  define q where "q = pow2 (max (floor_log2 \<bar>x\<bar>) (- 1022) - 52)"
  define k where "k = round_half_even (\<bar>x\<bar> / q)"
  have q: "0 < q" by (simp add: q_def pow2_pos)
  have "binary64 x =
        (if 2 ^ 1024 \<le> of_int k * q then (if 0 < x then PosInfinity else NegInfinity)
         else Fin (if 0 < x then of_int k * q else - (of_int k * q)))"
    unfolding k_def q_def binary64_def Let_def using False by simp
  with assms have y: "y = (if 0 < x then of_int k * q else - (of_int k * q))"
    by (simp split: if_splits)
  have "\<bar>of_int k - \<bar>x\<bar> / q\<bar> \<le> 1 / 2" unfolding k_def by (rule round_half_even_nearest)
  then have "\<bar>of_int k - \<bar>x\<bar> / q\<bar> * q \<le> 1 / 2 * q" using q by (simp only: mult_right_mono less_imp_le)
  moreover have "\<bar>of_int k - \<bar>x\<bar> / q\<bar> * q = \<bar>of_int k * q - \<bar>x\<bar>\<bar>"
  proof -
    have "\<bar>of_int k - \<bar>x\<bar> / q\<bar> * q = \<bar>(of_int k - \<bar>x\<bar> / q) * q\<bar>"
      using q by (intro abs_mult_pos) simp
    also have "(of_int k - \<bar>x\<bar> / q) * q = of_int k * q - \<bar>x\<bar>"
      using q by (simp add: left_diff_distrib)
    finally show ?thesis .
  qed
  ultimately have "\<bar>of_int k * q - \<bar>x\<bar>\<bar> \<le> q / 2" by simp
  moreover have "\<bar>y - x\<bar> = \<bar>of_int k * q - \<bar>x\<bar>\<bar>" using False by (auto simp: y)
  ultimately show ?thesis by (simp add: q_def pow2_half)
qed

lemma binary64_relative:
  assumes "binary64 x = Fin y" and "pow2 (- 1022) \<le> \<bar>x\<bar>"
  shows "\<bar>y - x\<bar> \<le> \<bar>x\<bar> / 2 ^ 53"
proof -
  from assms(2) have pos: "0 < \<bar>x\<bar>" using pow2_pos [of "- 1022"] by linarith
  have "- 1022 \<le> floor_log2 \<bar>x\<bar>"
  proof (rule ccontr)
    assume "\<not> - 1022 \<le> floor_log2 \<bar>x\<bar>"
    then have "floor_log2 \<bar>x\<bar> + 1 \<le> - 1022" by simp
    then have "pow2 (floor_log2 \<bar>x\<bar> + 1) \<le> pow2 (- 1022)"
      by (rule pow2_mono)
    with floor_log2_bounds [OF pos] assms(2) show False by linarith
  qed
  then have "max (floor_log2 \<bar>x\<bar>) (- 1022) = floor_log2 \<bar>x\<bar>" by simp
  with binary64_nearest [OF assms(1)]
  have "\<bar>y - x\<bar> \<le> pow2 (floor_log2 \<bar>x\<bar> - 53)" by simp
  also have "\<dots> = pow2 (floor_log2 \<bar>x\<bar>) / 2 ^ 53"
    using pow2_diff_nat [of "floor_log2 \<bar>x\<bar>" 53] by simp
  also have "\<dots> \<le> \<bar>x\<bar> / 2 ^ 53"
    using floor_log2_bounds [OF pos] by (simp add: divide_right_mono)
  finally show ?thesis .
qed

text \<open>
  The error of one rounding, relative in the normal range and absolute below it, and a
  range in which the rounded value is finite.
\<close>

lemma round_quantum:
  assumes "0 < q"
  shows "\<bar>of_int (round_half_even (a / q)) * q - a\<bar> \<le> q / 2"
proof -
  define k where "k = round_half_even (a / q)"
  have "\<bar>of_int k - a / q\<bar> \<le> 1 / 2" unfolding k_def by (rule round_half_even_nearest)
  then have "\<bar>of_int k - a / q\<bar> * q \<le> 1 / 2 * q"
    using assms by (simp only: mult_right_mono less_imp_le)
  moreover have "\<bar>of_int k - a / q\<bar> * q = \<bar>of_int k * q - a\<bar>"
  proof -
    have "\<bar>of_int k - a / q\<bar> * q = \<bar>(of_int k - a / q) * q\<bar>"
      using assms by (intro abs_mult_pos) simp
    also have "(of_int k - a / q) * q = of_int k * q - a"
      using assms by (simp add: left_diff_distrib)
    finally show ?thesis .
  qed
  ultimately show ?thesis by (simp add: k_def)
qed

lemma binary64_error:
  assumes "binary64 x = Fin y"
  shows "\<bar>y - x\<bar> \<le> \<bar>x\<bar> * unit_roundoff + least_step"
proof (cases "pow2 (- 1022) \<le> \<bar>x\<bar>")
  case True
  from binary64_relative [OF assms True] have "\<bar>y - x\<bar> \<le> \<bar>x\<bar> * unit_roundoff"
    by (simp add: unit_roundoff_def)
  moreover have "0 \<le> least_step" by (simp add: least_step_def)
  ultimately show ?thesis by linarith
next
  case False
  show ?thesis
  proof (cases "x = 0")
    case True
    with assms have "y = 0" by (simp add: binary64_def)
    with True show ?thesis by (simp add: unit_roundoff_def least_step_def)
  next
    case x: False
    then have pos: "0 < \<bar>x\<bar>" by simp
    have "floor_log2 \<bar>x\<bar> \<le> - 1022"
    proof (rule ccontr)
      assume "\<not> floor_log2 \<bar>x\<bar> \<le> - 1022"
      then have "- 1022 \<le> floor_log2 \<bar>x\<bar>" by simp
      then have "pow2 (- 1022) \<le> pow2 (floor_log2 \<bar>x\<bar>)" by (rule pow2_mono)
      with floor_log2_bounds [OF pos] False show False by linarith
    qed
    then have "max (floor_log2 \<bar>x\<bar>) (- 1022) = - 1022" by simp
    with binary64_nearest [OF assms] have "\<bar>y - x\<bar> \<le> pow2 (- 1022 - 53)" by simp
    also have "pow2 (- 1022 - 53) = least_step" by (simp add: pow2_def least_step_def)
    finally have "\<bar>y - x\<bar> \<le> least_step" .
    moreover have "0 \<le> \<bar>x\<bar> * unit_roundoff" by (simp add: unit_roundoff_def)
    ultimately show ?thesis by linarith
  qed
qed

lemma binary64_finite:
  assumes "\<bar>x\<bar> \<le> 3 * 2 ^ 1022"
  shows "\<exists>y. binary64 x = Fin y"
proof (cases "x = 0")
  case True
  then show ?thesis by (simp add: binary64_def)
next
  case False
  then have pos: "0 < \<bar>x\<bar>" by simp
  define M :: rat where "M = 2 ^ 1022"
  have M: "0 < M" "pow2 1024 = 4 * M" "pow2 971 \<le> M" "2 ^ 1024 = 4 * M"
    by (simp_all add: M_def pow2_def)
  from assms have x: "\<bar>x\<bar> \<le> 3 * M" by (simp add: M_def)
  define e where "e = max (floor_log2 \<bar>x\<bar>) (- 1022)"
  define q where "q = pow2 (e - 52)"
  define k where "k = round_half_even (\<bar>x\<bar> / q)"
  have q: "0 < q" by (simp add: q_def pow2_pos)
  have "floor_log2 \<bar>x\<bar> \<le> 1023"
  proof (rule ccontr)
    assume "\<not> floor_log2 \<bar>x\<bar> \<le> 1023"
    then have "1024 \<le> floor_log2 \<bar>x\<bar>" by simp
    then have "pow2 1024 \<le> pow2 (floor_log2 \<bar>x\<bar>)" by (rule pow2_mono)
    with floor_log2_bounds [OF pos] x M show False by linarith
  qed
  then have "e - 52 \<le> 971" by (simp add: e_def)
  then have "q \<le> pow2 971" unfolding q_def by (rule pow2_mono)
  with M have qb: "q \<le> M" by linarith
  have "\<bar>of_int k * q - \<bar>x\<bar>\<bar> \<le> q / 2" unfolding k_def by (rule round_quantum [OF q])
  then have "of_int k * q \<le> \<bar>x\<bar> + q / 2" by linarith
  also have "\<dots> < 4 * M" using x qb q M by linarith
  finally have "\<not> 2 ^ 1024 \<le> of_int k * q" unfolding M(4) by simp
  then have "binary64 x = Fin (if 0 < x then of_int k * q else - (of_int k * q))"
    unfolding k_def q_def e_def binary64_def Let_def using False by simp
  then show ?thesis by blast
qed

subsection \<open>The mean\<close>

text \<open>Without rounding, the fold of the quotients is the quotient of the sum.\<close>

lemma exact_div_add_distrib:
  "0 < n \<Longrightarrow> exact_div (exact_add a b) (Fin n) = exact_add (exact_div a (Fin n)) (exact_div b (Fin n))"
  by (cases a; cases b) (simp_all add: add_divide_distrib)

lemma foldl_mean:
  assumes "0 < n"
  shows "foldl (\<lambda>acc cur. exact_add acc (exact_div cur (Fin n))) (exact_div a (Fin n)) xs
         = exact_div (foldl exact_add a xs) (Fin n)"
  using assms by (induction xs arbitrary: a) (simp_all add: exact_div_add_distrib [symmetric])

lemma exact_average_mean:
  assumes "arr \<noteq> []"
  shows "foldl (\<lambda>acc cur. exact_add acc (exact_div cur (Fin (of_nat (length arr))))) (Fin 0) arr
         = arithmetic_mean arr"
proof -
  let ?n = "of_nat (length arr) :: rat"
  have pos: "0 < ?n" using assms by simp
  have z: "exact_div (Fin 0) (Fin ?n) = Fin 0" using pos by simp
  have "foldl (\<lambda>acc cur. exact_add acc (exact_div cur (Fin ?n))) (Fin 0) arr =
        foldl (\<lambda>acc cur. exact_add acc (exact_div cur (Fin ?n))) (exact_div (Fin 0) (Fin ?n)) arr"
    unfolding z ..
  also have "\<dots> = exact_div (foldl exact_add (Fin 0) arr) (Fin ?n)"
    by (rule foldl_mean [OF pos])
  finally show ?thesis by (simp add: arithmetic_mean_def sum_numbers_def)
qed

text \<open>On finite values the sum is the sum of the rationals, so the mean is the usual one.\<close>

lemma foldl_exact_add_Fin: "foldl exact_add (Fin a) (map Fin rs) = Fin (a + sum_list rs)"
  by (induction rs arbitrary: a) (simp_all add: add.assoc)

lemma arithmetic_mean_finite:
  "rs \<noteq> [] \<Longrightarrow> arithmetic_mean (map Fin rs) = Fin (sum_list rs / of_nat (length rs))"
  by (simp add: arithmetic_mean_def sum_numbers_def foldl_exact_add_Fin)

text \<open>A fold that rounds nothing is the fold without rounding.\<close>

lemma unrounded_foldl:
  "unrounded n acc arr \<Longrightarrow>
   foldl (\<lambda>acc cur. num_add acc (num_div cur n)) acc arr
   = foldl (\<lambda>acc cur. exact_add acc (exact_div cur n)) acc arr"
  by (induction arr arbitrary: acc) simp_all

lemma average_mean:
  assumes "arr \<noteq> []" and "average_unrounded arr"
  shows "average arr = arithmetic_mean arr"
  using unrounded_foldl [of "Fin (of_nat (length arr))" "Fin 0" arr] assms
  by (simp add: average_def average_unrounded_def exact_average_mean)

text \<open>
  The growth of the rounding errors along the fold: after \<open>k\<close> elements the sum differs
  from the exact one by at most \<open>((1 + u)\<^sup>k\<^sup>+\<^sup>1 - 1)\<close> times the sum of the absolute
  quotients, and \<open>2 * k * (1 + u)\<^sup>k\<close> times the least step, where \<open>u\<close> is the unit
  roundoff; and no intermediate result leaves the range.
\<close>

lemma power_bound:
  fixes u :: rat
  assumes "0 \<le> u" and "2 * of_nat m * u \<le> 1"
  shows "(1 + u) ^ m \<le> 1 + 2 * of_nat m * u"
  using assms(2)
proof (induction m)
  case 0
  show ?case by simp
next
  case (Suc m)
  have m: "2 * of_nat m * u \<le> 1"
  proof -
    have "2 * of_nat m * u \<le> 2 * of_nat (Suc m) * u"
      using assms(1) by (simp add: mult_right_mono)
    with Suc.prems show ?thesis by linarith
  qed
  then have IH: "(1 + u) ^ m \<le> 1 + 2 * of_nat m * u" by (rule Suc.IH)
  have "(1 + u) ^ Suc m = (1 + u) * (1 + u) ^ m" by simp
  also have "\<dots> \<le> (1 + u) * (1 + 2 * of_nat m * u)"
    using IH assms(1) by (intro mult_left_mono) simp_all
  also have "\<dots> = 1 + 2 * of_nat m * u + u + (2 * of_nat m * u) * u"
    by (simp add: algebra_simps)
  also have "\<dots> \<le> 1 + 2 * of_nat m * u + u + 1 * u"
    using mult_right_mono [OF m assms(1)] by linarith
  also have "\<dots> = 1 + 2 * of_nat (Suc m) * u" by (simp add: algebra_simps)
  finally show ?case .
qed

lemma fold_step_sum:
  fixes u h A a Q K s e d t :: rat
  assumes u: "0 \<le> u" and Q: "1 \<le> Q" and a: "\<bar>t\<bar> = a" and e: "\<bar>e\<bar> \<le> A"
    and E: "\<bar>s - e\<bar> \<le> ((1 + u) * Q - 1) * A + 2 * K * Q * h"
    and D: "\<bar>d - t\<bar> \<le> a * u + h"
  shows "\<bar>s + d\<bar> \<le> A + a + (((1 + u) * Q - 1) * A + 2 * K * Q * h) + (a * u + h)"
    and "\<bar>s + d\<bar> \<le> ((1 + u) * Q + u) * (A + a) + (2 * K * Q + 1) * h"
proof -
  show 1: "\<bar>s + d\<bar> \<le> A + a + (((1 + u) * Q - 1) * A + 2 * K * Q * h) + (a * u + h)"
    using a e E D by linarith
  have A: "0 \<le> A" using e by linarith
  have a0: "0 \<le> a" using a by linarith
  have "0 \<le> (1 + u) * Q - 1"
  proof -
    have "1 * 1 \<le> (1 + u) * Q" using u Q by (intro mult_mono) simp_all
    then show ?thesis by simp
  qed
  then have 2: "0 \<le> u * A" "0 \<le> a * ((1 + u) * Q - 1)" using u A a0 by simp_all
  have 3: "((1 + u) * Q + u) * (A + a) + (2 * K * Q + 1) * h =
        A + a + (((1 + u) * Q - 1) * A + 2 * K * Q * h) + (a * u + h) + u * A
        + a * ((1 + u) * Q - 1)"
    by (simp add: algebra_simps)
  show "\<bar>s + d\<bar> \<le> ((1 + u) * Q + u) * (A + a) + (2 * K * Q + 1) * h"
    using 1 2 unfolding 3 by linarith
qed

lemma fold_step_error:
  fixes u h A a Q K s e d t s' :: rat
  assumes u: "0 \<le> u" and h: "0 \<le> h" and Q: "1 \<le> Q" and a: "\<bar>t\<bar> = a" and e: "\<bar>e\<bar> \<le> A"
    and E: "\<bar>s - e\<bar> \<le> ((1 + u) * Q - 1) * A + 2 * K * Q * h"
    and D: "\<bar>d - t\<bar> \<le> a * u + h"
    and S: "\<bar>s' - (s + d)\<bar> \<le> \<bar>s + d\<bar> * u + h"
  shows "\<bar>s' - (e + t)\<bar> \<le> ((1 + u) * ((1 + u) * Q) - 1) * (A + a) + 2 * (K + 1) * ((1 + u) * Q) * h"
proof -
  define Eb where "Eb = ((1 + u) * Q - 1) * A + 2 * K * Q * h"
  define Db where "Db = a * u + h"
  have sd: "\<bar>s + d\<bar> \<le> A + a + Eb + Db"
    unfolding Eb_def Db_def by (rule fold_step_sum(1) [OF u Q a e E D])
  then have "\<bar>s + d\<bar> * u \<le> (A + a + Eb + Db) * u" using u by (rule mult_right_mono)
  with S have S': "\<bar>s' - (s + d)\<bar> \<le> (A + a + Eb + Db) * u + h" by linarith
  have "\<bar>s' - (e + t)\<bar> \<le> \<bar>s - e\<bar> + \<bar>d - t\<bar> + \<bar>s' - (s + d)\<bar>" by linarith
  with E D S' have T: "\<bar>s' - (e + t)\<bar> \<le> Eb + Db + ((A + a + Eb + Db) * u + h)"
    unfolding Eb_def Db_def by linarith
  have a0: "0 \<le> a" using a by linarith
  have "0 \<le> a * ((1 + u) * (1 + u) * (Q - 1))" using a0 u Q by simp
  moreover have "0 \<le> h * (2 * ((1 + u) * Q) - 2 - u)"
  proof -
    define P where "P = (1 + u) * Q"
    have "(1 + u) * 1 \<le> (1 + u) * Q" using u Q by (intro mult_left_mono) simp_all
    then have "1 + u \<le> P" by (simp add: P_def)
    then have "0 \<le> 2 * P - 2 - u" using u by linarith
    with h show ?thesis unfolding P_def by simp
  qed
  moreover have "((1 + u) * ((1 + u) * Q) - 1) * (A + a) + 2 * (K + 1) * ((1 + u) * Q) * h =
        Eb + Db + ((A + a + Eb + Db) * u + h)
        + a * ((1 + u) * (1 + u) * (Q - 1)) + h * (2 * ((1 + u) * Q) - 2 - u)"
    unfolding Eb_def Db_def by (simp add: algebra_simps)
  ultimately show ?thesis using T by linarith
qed

lemma unit_roundoff_bounds:
  "0 \<le> unit_roundoff" "unit_roundoff * 2 ^ 1022 + 1 \<le> 2 ^ 1022"
  "2 * 2 ^ 52 * unit_roundoff \<le> 1"
  by (simp_all add: unit_roundoff_def)

lemma least_step_bounds: "0 \<le> least_step" "(2 * 2 ^ 52 * 2 + 1) * least_step \<le> 1"
  by (simp_all add: least_step_def)

lemma growth_bound:
  assumes "m \<le> 2 ^ 52"
  shows "(1 + unit_roundoff) ^ m \<le> 1 + 2 * of_nat m * unit_roundoff"
    and "(1 + unit_roundoff) ^ m \<le> 2"
proof -
  from assms have "rat_of_nat m \<le> rat_of_nat (2 ^ 52)" by (simp only: of_nat_le_iff)
  then have m: "rat_of_nat m \<le> 2 ^ 52" by simp
  have "2 * rat_of_nat m * unit_roundoff \<le> 2 * 2 ^ 52 * unit_roundoff"
    using m unit_roundoff_bounds(1) by (intro mult_right_mono mult_left_mono) simp_all
  with unit_roundoff_bounds(3) have le: "2 * rat_of_nat m * unit_roundoff \<le> 1" by linarith
  show "(1 + unit_roundoff) ^ m \<le> 1 + 2 * of_nat m * unit_roundoff"
    using unit_roundoff_bounds(1) le by (rule power_bound)
  with le show "(1 + unit_roundoff) ^ m \<le> 2" by linarith
qed

lemma sum_list_abs_nonneg: "0 \<le> n \<Longrightarrow> 0 \<le> sum_list (map (\<lambda>x. \<bar>x\<bar> / n) (xs :: rat list))"
  by (induction xs) simp_all

lemma fold_error:
  fixes n :: rat
  assumes n: "0 < n"
  shows "k + length xs + 1 \<le> 2 ^ 52 \<Longrightarrow>
         A + sum_list (map (\<lambda>x. \<bar>x\<bar> / n) xs) \<le> 2 ^ 1022 \<Longrightarrow> \<bar>e\<bar> \<le> A \<Longrightarrow>
         \<bar>s - e\<bar> \<le> ((1 + unit_roundoff) * (1 + unit_roundoff) ^ k - 1) * A
                    + 2 * of_nat k * (1 + unit_roundoff) ^ k * least_step \<Longrightarrow>
         \<exists>y. foldl (\<lambda>acc cur. num_add acc (num_div cur (Fin n))) (Fin s) (map Fin xs) = Fin y
           \<and> \<bar>y - (e + sum_list (map (\<lambda>x. x / n) xs))\<bar>
             \<le> ((1 + unit_roundoff) * (1 + unit_roundoff) ^ (k + length xs) - 1)
                 * (A + sum_list (map (\<lambda>x. \<bar>x\<bar> / n) xs))
               + 2 * of_nat (k + length xs) * (1 + unit_roundoff) ^ (k + length xs) * least_step"
proof (induction xs arbitrary: k A e s)
  case Nil
  then show ?case by simp
next
  case (Cons x xs)
  define u where "u = unit_roundoff"
  define h where "h = least_step"
  define M :: rat where "M = 2 ^ 1022"
  define t where "t = x / n"
  define a where "a = \<bar>x\<bar> / n"
  define rest where "rest = sum_list (map (\<lambda>x. \<bar>x\<bar> / n) xs)"
  define Q where "Q = (1 + u) ^ k"
  define K where "K = rat_of_nat k"
  note u = unit_roundoff_bounds [folded u_def M_def]
  note h = least_step_bounds [folded h_def]
  have a: "\<bar>t\<bar> = a" using n by (simp add: t_def a_def)
  have a0: "0 \<le> a" using a by linarith
  have A0: "0 \<le> A" using Cons.prems(3) by linarith
  have rest0: "0 \<le> rest" unfolding rest_def using n by (intro sum_list_abs_nonneg) simp
  have range: "A + a + rest \<le> M" using Cons.prems(2) by (simp add: a_def rest_def M_def)
  have M0: "0 \<le> M" using A0 a0 rest0 range by linarith
  have Q1: "1 \<le> Q" unfolding Q_def using u(1) by (intro one_le_power) simp
  have K0: "0 \<le> K" by (simp add: K_def)
  have E: "\<bar>s - e\<bar> \<le> ((1 + u) * Q - 1) * A + 2 * K * Q * h"
    using Cons.prems(4) by (simp add: u_def h_def Q_def K_def)
  have "\<bar>t\<bar> \<le> 3 * M" using a a0 A0 rest0 range M0 by linarith
  then obtain d where d: "binary64 t = Fin d" unfolding M_def using binary64_finite by blast
  have D: "\<bar>d - t\<bar> \<le> a * u + h"
    using binary64_error [OF d] by (simp add: a u_def h_def)
  have quot: "num_div (Fin x) (Fin n) = Fin d" using n d by (simp add: t_def)
  have k1: "Suc k \<le> 2 ^ 52" using Cons.prems(1) by simp
  have P2: "(1 + u) * Q \<le> 2" using growth_bound(2) [OF k1] by (simp add: u_def Q_def)
  have Q2: "Q \<le> 2"
  proof -
    have "1 * Q \<le> (1 + u) * Q" using u(1) Q1 by (intro mult_right_mono) simp_all
    with P2 show ?thesis by simp
  qed
  have K52: "K \<le> 2 ^ 52"
  proof -
    from k1 have "k \<le> 2 ^ 52" by simp
    then have "rat_of_nat k \<le> rat_of_nat (2 ^ 52)" by (simp only: of_nat_le_iff)
    then show ?thesis by (simp add: K_def)
  qed
  have sd: "\<bar>s + d\<bar> \<le> ((1 + u) * Q + u) * (A + a) + (2 * K * Q + 1) * h"
    by (rule fold_step_sum(2) [OF u(1) Q1 a Cons.prems(3) E D])
  have "((1 + u) * Q + u) * (A + a) \<le> (2 + u) * M"
    using P2 u(1) A0 a0 rest0 range by (intro mult_mono) simp_all
  moreover have "(2 * K * Q + 1) * h \<le> (2 * 2 ^ 52 * 2 + 1) * h"
  proof -
    have "2 * K * Q \<le> 2 * 2 ^ 52 * 2" using K52 Q2 K0 Q1 by (intro mult_mono) simp_all
    then show ?thesis using h(1) by (intro mult_right_mono) simp_all
  qed
  moreover have "(2 + u) * M = 2 * M + u * M" by (simp add: algebra_simps)
  ultimately have "\<bar>s + d\<bar> \<le> 3 * M" using sd u(2) h(2) by linarith
  then obtain s' where s': "binary64 (s + d) = Fin s'" unfolding M_def using binary64_finite by blast
  have S: "\<bar>s' - (s + d)\<bar> \<le> \<bar>s + d\<bar> * u + h"
    using binary64_error [OF s'] by (simp add: u_def h_def)
  have step: "\<bar>s' - (e + t)\<bar> \<le> ((1 + u) * ((1 + u) * Q) - 1) * (A + a) + 2 * (K + 1) * ((1 + u) * Q) * h"
    by (rule fold_step_error [OF u(1) h(1) Q1 a Cons.prems(3) E D S])
  have "\<exists>y. foldl (\<lambda>acc cur. num_add acc (num_div cur (Fin n))) (Fin s') (map Fin xs) = Fin y
           \<and> \<bar>y - (e + t + sum_list (map (\<lambda>x. x / n) xs))\<bar>
             \<le> ((1 + unit_roundoff) * (1 + unit_roundoff) ^ (Suc k + length xs) - 1)
                 * (A + a + sum_list (map (\<lambda>x. \<bar>x\<bar> / n) xs))
               + 2 * of_nat (Suc k + length xs) * (1 + unit_roundoff) ^ (Suc k + length xs) * least_step"
  proof (rule Cons.IH)
    show "Suc k + length xs + 1 \<le> 2 ^ 52" using Cons.prems(1) by simp
    show "A + a + sum_list (map (\<lambda>x. \<bar>x\<bar> / n) xs) \<le> 2 ^ 1022"
      using range by (simp add: rest_def M_def)
    show "\<bar>e + t\<bar> \<le> A + a" using Cons.prems(3) a by linarith
    show "\<bar>s' - (e + t)\<bar> \<le> ((1 + unit_roundoff) * (1 + unit_roundoff) ^ Suc k - 1) * (A + a)
            + 2 * of_nat (Suc k) * (1 + unit_roundoff) ^ Suc k * least_step"
      using step by (simp add: u_def h_def Q_def K_def algebra_simps)
  qed
  then show ?case using quot s' by (simp add: t_def a_def algebra_simps)
qed

lemma in_range_values:
  "list_all in_range arr \<Longrightarrow> \<exists>xs. arr = map Fin xs \<and> (\<forall>x\<in>set xs. \<bar>x\<bar> \<le> 2 ^ 1022)"
proof (induction arr)
  case Nil
  then show ?case by simp
next
  case (Cons v arr)
  then obtain xs where xs: "arr = map Fin xs" "\<forall>x\<in>set xs. \<bar>x\<bar> \<le> 2 ^ 1022" by auto
  from Cons.prems obtain x where x: "v = Fin x" "\<bar>x\<bar> \<le> 2 ^ 1022" by (cases v) simp_all
  show ?case by (rule exI [of _ "x # xs"]) (use x xs in simp)
qed

lemma sum_list_divide: "sum_list (map (\<lambda>x. x / n) xs) = sum_list xs / (n :: rat)"
  by (induction xs) (simp_all add: add_divide_distrib)

lemma sum_list_abs_divide: "sum_list (map (\<lambda>x. \<bar>x\<bar> / n) xs) = sum_list (map abs xs) / (n :: rat)"
  by (induction xs) (simp_all add: add_divide_distrib)

lemma sum_list_abs_bound:
  "\<forall>x\<in>set xs. \<bar>x\<bar> \<le> M \<Longrightarrow> sum_list (map abs xs) \<le> of_nat (length xs) * (M :: rat)"
  by (induction xs) (simp_all add: algebra_simps)

lemma sum_list_magnitude: "sum_list (map (magnitude \<circ> Fin) xs) = sum_list (map abs xs)"
  by (induction xs) simp_all

lemma average_error:
  assumes "arr \<noteq> []" and "list_all in_range arr" and "length arr < 2 ^ 52"
  shows "within_distance (rounding_bound arr) (average arr) (arithmetic_mean arr)"
proof -
  from in_range_values [OF assms(2)]
  obtain xs where arr: "arr = map Fin xs" and xs: "\<forall>x\<in>set xs. \<bar>x\<bar> \<le> 2 ^ 1022" by blast
  define l where "l = length xs"
  define n where "n = rat_of_nat l"
  define u where "u = unit_roundoff"
  define h where "h = least_step"
  define B where "B = sum_list (map abs xs) / n"
  define P where "P = (1 + u) ^ Suc l"
  define Q where "Q = (1 + u) ^ l"
  from assms(1) arr have l: "0 < l" by (simp add: l_def)
  then have n: "0 < n" by (simp add: n_def)
  from assms(3) arr have l52: "Suc l \<le> 2 ^ 52" by (simp add: l_def)
  have "0 \<le> sum_list (map (\<lambda>x. \<bar>x\<bar> / n) xs)" using n by (intro sum_list_abs_nonneg) simp
  then have B0: "0 \<le> B" by (simp add: sum_list_abs_divide B_def)
  have "sum_list (map abs xs) \<le> n * 2 ^ 1022"
    unfolding n_def l_def by (rule sum_list_abs_bound [OF xs])
  then have BM: "B \<le> 2 ^ 1022" unfolding B_def using n by (simp add: field_simps)
  have "\<exists>y. foldl (\<lambda>acc cur. num_add acc (num_div cur (Fin n))) (Fin 0) (map Fin xs) = Fin y
           \<and> \<bar>y - (0 + sum_list (map (\<lambda>x. x / n) xs))\<bar>
             \<le> ((1 + unit_roundoff) * (1 + unit_roundoff) ^ (0 + length xs) - 1)
                 * (0 + sum_list (map (\<lambda>x. \<bar>x\<bar> / n) xs))
               + 2 * of_nat (0 + length xs) * (1 + unit_roundoff) ^ (0 + length xs) * least_step"
  proof (rule fold_error [OF n])
    show "0 + length xs + 1 \<le> 2 ^ 52" using l52 by (simp add: l_def)
    show "0 + sum_list (map (\<lambda>x. \<bar>x\<bar> / n) xs) \<le> 2 ^ 1022"
      using BM by (simp add: sum_list_abs_divide B_def)
    show "\<bar>0::rat\<bar> \<le> 0" by simp
    show "\<bar>0 - 0\<bar> \<le> ((1 + unit_roundoff) * (1 + unit_roundoff) ^ 0 - 1) * 0
            + 2 * rat_of_nat 0 * (1 + unit_roundoff) ^ 0 * least_step"
      by simp
  qed
  then obtain y where y: "average arr = Fin y"
    and err: "\<bar>y - sum_list xs / n\<bar> \<le> (P - 1) * B + 2 * n * Q * h"
    by (auto simp: average_def arr n_def l_def sum_list_divide sum_list_abs_divide B_def P_def
        Q_def u_def h_def)
  have mean: "arithmetic_mean arr = Fin (sum_list xs / n)"
    using l by (simp add: arr arithmetic_mean_finite n_def l_def)
  have "P \<le> 1 + 2 * of_nat (Suc l) * u"
    unfolding P_def u_def by (rule growth_bound(1) [OF l52])
  moreover have "2 * rat_of_nat (Suc l) * u = (n + 1) / 2 ^ 52"
    by (simp add: u_def unit_roundoff_def n_def field_simps)
  ultimately have "P - 1 \<le> (n + 1) / 2 ^ 52" by linarith
  then have 1: "(P - 1) * B \<le> (n + 1) / 2 ^ 52 * B" using B0 by (rule mult_right_mono)
  have "Q \<le> 2" unfolding Q_def u_def using l52 by (intro growth_bound(2)) simp
  then have "n * Q \<le> n * 2" using n by (intro mult_left_mono) simp_all
  then have "n * Q * (2 * h) \<le> n * 2 * (2 * h)"
    using least_step_bounds(1) by (intro mult_right_mono) (simp_all add: h_def)
  moreover have "n * 2 * (2 * h) = n / 2 ^ 1073" by (simp add: h_def least_step_def)
  moreover have "n * Q * (2 * h) = 2 * n * Q * h" by simp
  ultimately have 2: "2 * n * Q * h \<le> n / 2 ^ 1073" by linarith
  have "rounding_bound arr = (n + 1) / 2 ^ 52 * B + n / 2 ^ 1073"
    by (simp add: rounding_bound_def arr sum_list_magnitude B_def n_def l_def)
  with err 1 2 have "\<bar>y - sum_list xs / n\<bar> \<le> rounding_bound arr" by linarith
  then show ?thesis by (simp add: y mean)
qed

text \<open>
  C4, as the code has it. For a non-empty watched list of length \<open>n\<close>, the average user
  rating, the average critic rating and the average runtime are each the sum, taken from
  0 in the order of the list and rounded to binary64 after each operation, of the
  quotients of the property by \<open>n\<close>, where a missing value counts as 0. Such an average
  is the arithmetic mean (the sum divided by \<open>n\<close>) whenever none of the divisions and
  additions of its fold rounds. When the values are finite and of absolute value at most
  \<open>2\<^sup>1\<^sup>0\<^sup>2\<^sup>2\<close> and \<open>n\<close> is below \<open>2\<^sup>5\<^sup>2\<close>, the average is finite and differs from the
  arithmetic mean by at most \<open>(n + 1) / 2\<^sup>5\<^sup>2\<close> times the mean of the absolute values,
  plus \<open>n / 2\<^sup>1\<^sup>0\<^sup>7\<^sup>3\<close>.
\<close>

theorem averages_are_means_up_to_rounding:
  assumes "ws \<noteq> []"
  shows "avgUserRating ws
           = foldl (\<lambda>acc w. num_add acc (num_div (nullish (userRating w) (Fin 0))
                                                 (Fin (of_nat (length ws))))) (Fin 0) ws
       \<and> avgImdbRating ws
           = foldl (\<lambda>acc w. num_add acc (num_div (nullish (imdbRating w) (Fin 0))
                                                 (Fin (of_nat (length ws))))) (Fin 0) ws
       \<and> avgRuntime ws
           = foldl (\<lambda>acc w. num_add acc (num_div (nullish (runtime w) (Fin 0))
                                                 (Fin (of_nat (length ws))))) (Fin 0) ws
       \<and> (average_unrounded (userRatings ws) \<longrightarrow>
            avgUserRating ws = arithmetic_mean (userRatings ws))
       \<and> (average_unrounded (imdbRatings ws) \<longrightarrow>
            avgImdbRating ws = arithmetic_mean (imdbRatings ws))
       \<and> (average_unrounded (runtimes ws) \<longrightarrow>
            avgRuntime ws = arithmetic_mean (runtimes ws))
       \<and> (list_all in_range (userRatings ws) \<and> length ws < 2 ^ 52 \<longrightarrow>
            within_distance (rounding_bound (userRatings ws)) (avgUserRating ws)
              (arithmetic_mean (userRatings ws)))
       \<and> (list_all in_range (imdbRatings ws) \<and> length ws < 2 ^ 52 \<longrightarrow>
            within_distance (rounding_bound (imdbRatings ws)) (avgImdbRating ws)
              (arithmetic_mean (imdbRatings ws)))
       \<and> (list_all in_range (runtimes ws) \<and> length ws < 2 ^ 52 \<longrightarrow>
            within_distance (rounding_bound (runtimes ws)) (avgRuntime ws)
              (arithmetic_mean (runtimes ws)))"
proof -
  have fold: "average (map f ws)
      = foldl (\<lambda>acc w. num_add acc (num_div (f w) (Fin (of_nat (length ws))))) (Fin 0) ws" for f
    by (simp add: average_def foldl_map)
  have exact: "average_unrounded (map f ws) \<longrightarrow> average (map f ws) = arithmetic_mean (map f ws)" for f
    using assms by (simp add: average_mean)
  have near: "list_all in_range (map f ws) \<and> length ws < 2 ^ 52 \<longrightarrow>
      within_distance (rounding_bound (map f ws)) (average (map f ws)) (arithmetic_mean (map f ws))" for f
    using assms average_error [of "map f ws"] by simp
  show ?thesis
    unfolding avgUserRating_def avgImdbRating_def avgRuntime_def userRatings_def imdbRatings_def
      runtimes_def
    using fold exact near by blast
qed

lemma two_entries_unrounded:
  "average_unrounded [Fin 8, Fin 4]" "average_unrounded [Fin (15 / 2), Fin 0]"
  "average_unrounded [Fin 120, Fin 90]"
  by (simp_all add: average_unrounded_def binary64_eval)

theorem averages_are_means_up_to_rounding_witness:
  "two_entries \<noteq> [] \<and> length two_entries < 2 ^ 52
   \<and> average_unrounded (userRatings two_entries) \<and> list_all in_range (userRatings two_entries)
   \<and> average_unrounded (imdbRatings two_entries) \<and> list_all in_range (imdbRatings two_entries)
   \<and> average_unrounded (runtimes two_entries) \<and> list_all in_range (runtimes two_entries)
   \<and> avgUserRating two_entries = Fin 6
   \<and> avgImdbRating two_entries = Fin (15 / 4)
   \<and> avgRuntime two_entries = Fin 105
   \<and> within_distance (rounding_bound (userRatings two_entries)) (avgUserRating two_entries)
        (arithmetic_mean (userRatings two_entries))
   \<and> within_distance (rounding_bound (imdbRatings two_entries)) (avgImdbRating two_entries)
        (arithmetic_mean (imdbRatings two_entries))
   \<and> within_distance (rounding_bound (runtimes two_entries)) (avgRuntime two_entries)
        (arithmetic_mean (runtimes two_entries))"
proof -
  have l: "userRatings two_entries = [Fin 8, Fin 4]"
    "imdbRatings two_entries = [Fin (15 / 2), Fin 0]"
    "runtimes two_entries = [Fin 120, Fin 90]"
    by (simp_all add: two_entries_def entry_def userRatings_def imdbRatings_def runtimes_def)
  have m: "arithmetic_mean [Fin 8, Fin 4] = Fin 6"
    "arithmetic_mean [Fin (15 / 2), Fin 0] = Fin (15 / 4)"
    "arithmetic_mean [Fin 120, Fin 90] = Fin 105"
    by (simp_all add: arithmetic_mean_def sum_numbers_def)
  have ne: "two_entries \<noteq> []" and len: "length two_entries < 2 ^ 52"
    by (simp_all add: two_entries_def)
  have r: "list_all in_range [Fin 8, Fin 4]" "list_all in_range [Fin (15 / 2), Fin 0]"
    "list_all in_range [Fin 120, Fin 90]"
    by simp_all
  from averages_are_means_up_to_rounding [OF ne] two_entries_unrounded r len
  have "avgUserRating two_entries = arithmetic_mean (userRatings two_entries)"
    "avgImdbRating two_entries = arithmetic_mean (imdbRatings two_entries)"
    "avgRuntime two_entries = arithmetic_mean (runtimes two_entries)"
    "within_distance (rounding_bound (userRatings two_entries)) (avgUserRating two_entries)
        (arithmetic_mean (userRatings two_entries))"
    "within_distance (rounding_bound (imdbRatings two_entries)) (avgImdbRating two_entries)
        (arithmetic_mean (imdbRatings two_entries))"
    "within_distance (rounding_bound (runtimes two_entries)) (avgRuntime two_entries)
        (arithmetic_mean (runtimes two_entries))"
    unfolding l by blast+
  with two_entries_unrounded r ne len show ?thesis unfolding l m by simp
qed

text \<open>
  The claim C4 fails on six entries with the user rating 7: each quotient 7 / 6 is
  rounded, and the six of them add up to 7.000000000000001, which is \<open>7 + 2\<^sup>-\<^sup>5\<^sup>0\<close>, while
  the arithmetic mean is 7, and so is the sum divided by the count in the arithmetic of
  the program.
\<close>

lemma seven_sixths:
  "binary64 (7 / 6) = Fin (5254199565265579 / 4503599627370496)"
  by (simp add: binary64_eval)

lemma six_sevens_sum:
  "num_add (Fin 0) (Fin (5254199565265579 / 4503599627370496))
     = Fin (5254199565265579 / 4503599627370496)"
  "num_add (Fin (5254199565265579 / 4503599627370496)) (Fin (5254199565265579 / 4503599627370496))
     = Fin (5254199565265579 / 2251799813685248)"
  "num_add (Fin (5254199565265579 / 2251799813685248)) (Fin (5254199565265579 / 4503599627370496))
     = Fin (7 / 2)"
  "num_add (Fin (7 / 2)) (Fin (5254199565265579 / 4503599627370496))
     = Fin (5254199565265579 / 1125899906842624)"
  "num_add (Fin (5254199565265579 / 1125899906842624)) (Fin (5254199565265579 / 4503599627370496))
     = Fin (3283874728290987 / 562949953421312)"
  "num_add (Fin (3283874728290987 / 562949953421312)) (Fin (5254199565265579 / 4503599627370496))
     = Fin (7881299347898369 / 1125899906842624)"
  by (simp_all add: binary64_eval)

lemma average_six_sevens:
  "average [Fin 7, Fin 7, Fin 7, Fin 7, Fin 7, Fin 7] = Fin (7881299347898369 / 1125899906842624)"
  by (simp add: average_def seven_sixths six_sevens_sum del: num_add.simps)

lemma sum_six_sevens:
  "foldl num_add (Fin 0) [Fin 7, Fin 7, Fin 7, Fin 7, Fin 7, Fin 7] = Fin 42"
  by (simp add: binary64_eval)

theorem average_of_six_sevens:
  "userRatings [entry ''tt1'' 100 8 7, entry ''tt2'' 100 8 7, entry ''tt3'' 100 8 7,
                entry ''tt4'' 100 8 7, entry ''tt5'' 100 8 7, entry ''tt6'' 100 8 7]
     = [Fin 7, Fin 7, Fin 7, Fin 7, Fin 7, Fin 7]
   \<and> avgUserRating [entry ''tt1'' 100 8 7, entry ''tt2'' 100 8 7, entry ''tt3'' 100 8 7,
                     entry ''tt4'' 100 8 7, entry ''tt5'' 100 8 7, entry ''tt6'' 100 8 7]
     = Fin (7 + 1 / 2 ^ 50)
   \<and> arithmetic_mean [Fin 7, Fin 7, Fin 7, Fin 7, Fin 7, Fin 7] = Fin 7
   \<and> sum_divided_by_count [Fin 7, Fin 7, Fin 7, Fin 7, Fin 7, Fin 7] = Fin 7
   \<and> Fin (7 + 1 / 2 ^ 50) \<noteq> Fin 7"
  by (simp add: avgUserRating_def userRatings_def entry_def average_six_sevens
      arithmetic_mean_def sum_numbers_def sum_divided_by_count_def sum_six_sevens binary64_eval)

text \<open>The six entries rated 7 are within the bound: \<open>2\<^sup>-\<^sup>5\<^sup>0\<close> is at most \<open>49 / 2\<^sup>5\<^sup>2\<close>.\<close>

lemma six_sevens_within:
  "rounding_bound [Fin 7, Fin 7, Fin 7, Fin 7, Fin 7, Fin 7] = 49 / 2 ^ 52 + 6 / 2 ^ 1073"
  "within_distance (rounding_bound [Fin 7, Fin 7, Fin 7, Fin 7, Fin 7, Fin 7])
     (average [Fin 7, Fin 7, Fin 7, Fin 7, Fin 7, Fin 7])
     (arithmetic_mean [Fin 7, Fin 7, Fin 7, Fin 7, Fin 7, Fin 7])"
  by (simp_all add: rounding_bound_def average_six_sevens arithmetic_mean_def sum_numbers_def)

text \<open>C9. The count that the summary shows is the length of the watched list.\<close>

theorem WatchedSummary_count: "count (WatchedSummary ws) = length ws"
  by (simp add: WatchedSummary_def)

text \<open>
  C10. On the empty watched list the summary is defined: the count is 0 and each of the
  three means is exactly 0, shown as 0.00. The fold runs its callback, and so the division
  by the length, for no element; the sum divided by the length would be 0 / 0 there.
\<close>

theorem WatchedSummary_empty:
  "count (WatchedSummary []) = 0
   \<and> avgImdbRating [] = Fin 0 \<and> avgUserRating [] = Fin 0 \<and> avgRuntime [] = Fin 0
   \<and> shownImdbRating (WatchedSummary []) = Some ''0.00''
   \<and> shownUserRating (WatchedSummary []) = Some ''0.00''
   \<and> shownRuntime (WatchedSummary []) = Some ''0.00''
   \<and> average [] = Fin 0 \<and> arithmetic_mean [] = NaN"
  by (simp add: WatchedSummary_def avgImdbRating_def avgUserRating_def avgRuntime_def
      userRatings_def imdbRatings_def runtimes_def average_def arithmetic_mean_def
      sum_numbers_def digit_def digits.simps)

text \<open>
  The summary of the list with the one entry of user rating 8, runtime 120 and critic
  rating 7.5, added to the empty list.
\<close>

lemma digits_small: "n < 10 \<Longrightarrow> digits n = [digit n]"
  by (simp add: digits.simps)

lemma digits_large: "10 \<le> n \<Longrightarrow> digits n = digits (n div 10) @ [digit (n mod 10)]"
  by (subst digits.simps) simp

lemma WatchedSummary_one_entry:
  "WatchedSummary (handleAddWatched (entry ''tt1'' 120 (15 / 2) 8) []) =
     \<lparr>count = 1, shownImdbRating = Some ''7.50'', shownUserRating = Some ''8.00'',
      shownRuntime = Some ''120.00''\<rparr>"
  by (simp add: WatchedSummary_def handleAddWatched_def entry_def avgImdbRating_def
      avgUserRating_def avgRuntime_def userRatings_def imdbRatings_def runtimes_def average_def
      digit_def digits_small digits_large binary64_eval)

subsection \<open>Selection\<close>

text \<open>
  C7, as the code has it. Selecting the identifier that is selected leads to no selection.
  Selecting an identifier that is not empty, in a state in which it is not selected, leads
  to that identifier being selected; selecting the empty identifier, which the list passes
  for a movie without one, leads to no selection from every state. Closing leads to no
  selection from every state. Selecting the same identifier twice in a row ends in no
  selection from every state in which it is not selected, and in the state it started
  from when it is selected there.
\<close>

theorem selection_state_machine:
  "selection (handleSelectMovie mid mid) = NoSelection
   \<and> (mid \<noteq> '''' \<longrightarrow> selection sel \<noteq> Selected mid \<longrightarrow>
        selection (handleSelectMovie mid sel) = Selected mid)
   \<and> selection (handleSelectMovie '''' sel) = NoSelection
   \<and> selection (handleCloseMovie sel) = NoSelection
   \<and> (selection sel \<noteq> Selected mid \<longrightarrow>
        selection (handleSelectMovie mid (handleSelectMovie mid sel)) = NoSelection)
   \<and> selection (handleSelectMovie mid (handleSelectMovie mid mid)) = selection mid"
  by (auto simp: selection_def handleSelectMovie_def handleCloseMovie_def)

theorem selection_state_machine_witness:
  "''tt1'' \<noteq> '''' \<and> selection '''' \<noteq> Selected ''tt1''
   \<and> selection (handleSelectMovie ''tt1'' '''') = Selected ''tt1''
   \<and> selection (handleSelectMovie ''tt1'' ''tt1'') = NoSelection
   \<and> selection (handleSelectMovie '''' '''') = NoSelection
   \<and> selection (handleSelectMovie ''tt1'' (handleSelectMovie ''tt1'' '''')) = NoSelection
   \<and> selection (handleSelectMovie ''tt1'' (handleSelectMovie ''tt1'' ''tt1'')) = Selected ''tt1''
   \<and> selection (handleCloseMovie '''') = NoSelection"
  using selection_state_machine [of "''tt1''" "''''"]
  by (simp add: selection_def)

text \<open>
  The claim C7 fails in two places. From the state in which an identifier is selected,
  selecting it twice leads back to that state, not to no selection. And selecting the
  empty identifier while another one is selected leads to no selection, not to a state
  in which the empty identifier is selected.
\<close>

theorem select_twice_when_selected:
  "selection ''tt1'' = Selected ''tt1''
   \<and> selection (handleSelectMovie ''tt1'' (handleSelectMovie ''tt1'' ''tt1'')) = Selected ''tt1''
   \<and> selection ''tt2'' = Selected ''tt2''
   \<and> selection (handleSelectMovie '''' ''tt2'') = NoSelection
   \<and> NoSelection \<noteq> Selected ''''"
  by (simp add: selection_def handleSelectMovie_def)

subsection \<open>Deleting from the watched list\<close>

lemma filter_distinct_split:
  "distinct (map f ws) \<Longrightarrow> w \<in> set ws \<Longrightarrow>
   \<exists>xs ys. ws = xs @ w # ys \<and> filter (\<lambda>v. f v \<noteq> f w) ws = xs @ ys"
proof (induction ws)
  case Nil then show ?case by simp
next
  case (Cons a ws)
  from Cons.prems have d: "distinct (map f ws)" and na: "f a \<notin> f ` set ws" by simp_all
  show ?case
  proof (cases "a = w")
    case True
    from na True have "\<forall>v\<in>set ws. f v \<noteq> f w" by (auto simp: image_iff)
    then have "filter (\<lambda>v. f v \<noteq> f w) ws = ws" by (simp add: filter_id_conv)
    then have "a # ws = [] @ w # ws \<and> filter (\<lambda>v. f v \<noteq> f w) (a # ws) = [] @ ws"
      using True by simp
    then show ?thesis by blast
  next
    case False
    with Cons.prems have w: "w \<in> set ws" by simp
    from na w have ak: "f a \<noteq> f w" by (auto simp: image_iff)
    from Cons.IH [OF d w] obtain xs ys where
      e: "ws = xs @ w # ys" and f: "filter (\<lambda>v. f v \<noteq> f w) ws = xs @ ys" by blast
    have "a # ws = (a # xs) @ w # ys" using e by simp
    moreover have "filter (\<lambda>v. f v \<noteq> f w) (a # ws) = (a # xs) @ ys" using ak f by simp
    ultimately show ?thesis by blast
  qed
qed

text \<open>
  C6. In a watched list with pairwise distinct identifiers, deleting an identifier removes
  exactly the entry that has it, when there is one: the result is the list without that
  one entry, the others as they were and in their order. When no entry has the
  identifier, the list stays as it is.
\<close>

theorem handleDeleteWatched_removes_exactly:
  assumes "distinct (map imdbID ws)"
  shows "(\<forall>w \<in> set ws. imdbID w = Val mid \<longrightarrow>
            (\<exists>xs ys. ws = xs @ w # ys \<and> handleDeleteWatched mid ws = xs @ ys))
       \<and> ((\<forall>w \<in> set ws. imdbID w \<noteq> Val mid) \<longrightarrow> handleDeleteWatched mid ws = ws)"
proof (intro conjI ballI impI)
  fix w assume "w \<in> set ws" and "imdbID w = Val mid"
  with filter_distinct_split [OF assms, of w]
  show "\<exists>xs ys. ws = xs @ w # ys \<and> handleDeleteWatched mid ws = xs @ ys"
    by (simp add: handleDeleteWatched_def)
next
  assume "\<forall>w \<in> set ws. imdbID w \<noteq> Val mid"
  then show "handleDeleteWatched mid ws = ws"
    by (simp add: handleDeleteWatched_def filter_id_conv)
qed

theorem handleDeleteWatched_removes_exactly_witness:
  "distinct (map imdbID [entry ''tt1'' 120 8 9, entry ''tt2'' 90 6 4, entry ''tt3'' 100 7 7])
   \<and> entry ''tt2'' 90 6 4 \<in> set [entry ''tt1'' 120 8 9, entry ''tt2'' 90 6 4, entry ''tt3'' 100 7 7]
   \<and> imdbID (entry ''tt2'' 90 6 4) = Val ''tt2''
   \<and> handleDeleteWatched ''tt2'' [entry ''tt1'' 120 8 9, entry ''tt2'' 90 6 4, entry ''tt3'' 100 7 7]
       = [entry ''tt1'' 120 8 9, entry ''tt3'' 100 7 7]"
  using handleDeleteWatched_removes_exactly
    [of "[entry ''tt1'' 120 8 9, entry ''tt2'' 90 6 4, entry ''tt3'' 100 7 7]" "''tt2''"]
  by (simp add: entry_def handleDeleteWatched_def)

subsection \<open>The watched list keeps its identifiers distinct\<close>

lemma watched_selectedId_effect: "watched (selectedId_effect s) = watched s"
  by (simp add: selectedId_effect_def)

lemma watched_render: "watched (render old s) = watched s"
  by (simp add: render_def watched_selectedId_effect)

lemma watched_settled: "watched (getMovieDetails_settled rq out s) = watched s"
  by (simp add: getMovieDetails_settled_def split: outcome.splits option.splits)

lemma distinct_handleDeleteWatched:
  "distinct (map imdbID ws) \<Longrightarrow> distinct (map imdbID (handleDeleteWatched mid ws))"
  by (simp add: handleDeleteWatched_def distinct_map_filter)

lemma distinct_add_unwatched:
  assumes "distinct (map imdbID ws)" and "watchedMovie ws sel = None"
  shows "distinct (map imdbID (handleAddWatched (newWatchedMovie N sel d) ws))"
proof -
  from assms(2) have "\<forall>w \<in> set ws. imdbID w \<noteq> Val sel"
    by (simp add: watchedMovie_def find_None_iff)
  then have "Val sel \<notin> imdbID ` set ws" by auto
  with assms(1) show ?thesis
    by (simp add: handleAddWatched_def newWatchedMovie_def)
qed

lemma step_distinct:
  assumes "distinct (map imdbID (watched s))"
  shows "distinct (map imdbID (watched (step N s e)))"
proof (cases e)
  case (SelectMovie mid)
  with assms show ?thesis by (simp add: watched_render)
next
  case CloseMovie
  with assms show ?thesis by (simp add: watched_render)
next
  case (SetRating r)
  with assms show ?thesis by (simp split: option.splits)
next
  case AddToList
  with assms show ?thesis
    by (auto simp: watched_render rating_shown_def distinct_add_unwatched split: option.splits)
next
  case (DeleteWatched mid)
  with assms show ?thesis by (simp add: distinct_handleDeleteWatched)
next
  case (Settle rid out)
  with assms show ?thesis by (simp add: watched_settled split: option.splits)
qed

lemma run_distinct:
  "distinct (map imdbID (watched s)) \<Longrightarrow> distinct (map imdbID (watched (run N s es)))"
  unfolding run_def by (induction es arbitrary: s) (simp_all add: step_distinct)

text \<open>
  C8. No two entries of the watched list share an identifier: from a state whose watched
  list has pairwise distinct identifiers, every event, and so every sequence of events,
  leads to a state whose watched list has pairwise distinct identifiers. The events
  include the click on \<^verbatim>\<open>Add to list\<close>, which is rendered only when the selected
  identifier is not in the list, and the deletion by identifier.
\<close>

theorem watched_identifiers_stay_distinct:
  assumes "distinct (map imdbID (watched s))"
  shows "distinct (map imdbID (watched (step N s e)))
       \<and> distinct (map imdbID (watched (run N s es)))"
  using assms by (simp add: step_distinct run_distinct)

lemma rated_state:
  "rated =
     \<lparr>watched = [entry ''tt1'' 120 8 9], selectedId = ''tt2'',
      details = Some \<lparr>movie = (detail ''tt2'' ''Two'')\<lparr>Runtime := Val ''142 min'',
                                  MovieDetails.imdbRating := Val ''7.5''\<rparr>,
                      isLoading = False, userRating = Fin 7, countRef = 1\<rparr>,
      instance_no = 1, inflight = [], issued = 1, unhandled = []\<rparr>"
  by (simp add: rated_def run_def initialApp_def render_def handleSelectMovie_def
      selectedId_effect_def getMovieDetails_settled_def rating_shown_def watchedMovie_def
      entry_def initialDetails_def detail_def)

theorem watched_identifiers_stay_distinct_witness:
  "distinct (map imdbID (watched rated))
   \<and> distinct (map imdbID (watched (step decimal rated AddToList)))
   \<and> watched (step decimal rated AddToList) =
       [entry ''tt1'' 120 8 9,
        \<lparr>imdbID = Val ''tt2'', Title = Val ''Two'', Year = Undefined, Poster = Undefined,
         runtime = Val (Fin 142), imdbRating = Val (Fin (15 / 2)), userRating = Val (Fin 7),
         countRatingDecisions = Val (Fin 1)\<rparr>]
   \<and> distinct (map imdbID (watched (run decimal rated [AddToList, DeleteWatched ''tt1''])))"
  using watched_identifiers_stay_distinct
    [of rated decimal AddToList "[AddToList, DeleteWatched ''tt1'']"]
  by (simp add: rated_state rating_shown_def watchedMovie_def entry_def handleAddWatched_def
      newWatchedMovie_def detail_def initialDetails_def decimal_def is_digit_def natural_def
      render_def handleCloseMovie_def binary64_eval)

subsection \<open>The states that the application reaches\<close>

lemma consistent_initialApp: "consistent (initialApp ws)"
  by (simp add: consistent_def initialApp_def)

lemma consistent_render:
  assumes "(details s = None) = (old = '''')"
    and "distinct (map fst (inflight s))"
    and "list_all (\<lambda>p. fst p < issued s \<and> issuer (snd p) \<le> instance_no s) (inflight s)"
  shows "consistent (render old s)"
  using assms
  by (auto simp: consistent_def render_def selectedId_effect_def list_all_iff)

lemma consistent_settled:
  assumes "consistent s"
  shows "consistent (getMovieDetails_settled rq out
           (s\<lparr>inflight := filter (\<lambda>p. fst p \<noteq> rid) (inflight s)\<rparr>))"
  using assms
  by (auto simp: consistent_def getMovieDetails_settled_def list_all_iff distinct_map_filter
      split: outcome.splits option.splits)

lemma consistent_step:
  assumes "consistent s"
  shows "consistent (step N s e)"
proof -
  from assms have m: "(details s = None) = (selectedId s = '''')"
    and d: "distinct (map fst (inflight s))"
    and l: "list_all (\<lambda>p. fst p < issued s \<and> issuer (snd p) \<le> instance_no s) (inflight s)"
    by (simp_all add: consistent_def)
  have r: "consistent (render (selectedId s) (s\<lparr>selectedId := x\<rparr>))"
    "consistent (render (selectedId s) (s\<lparr>watched := w, selectedId := x\<rparr>))" for x w
    using m d l by (auto intro!: consistent_render)
  show ?thesis
  proof (cases e)
    case (SelectMovie mid)
    then show ?thesis by (simp add: r)
  next
    case CloseMovie
    then show ?thesis by (simp add: r)
  next
    case (SetRating r)
    with assms show ?thesis by (auto simp: consistent_def split: option.splits)
  next
    case AddToList
    with assms r show ?thesis by (simp split: option.splits)
  next
    case (DeleteWatched mid)
    with assms show ?thesis by (auto simp: consistent_def)
  next
    case (Settle rid out)
    with assms show ?thesis by (auto simp: consistent_settled split: option.splits)
  qed
qed

lemma consistent_run: "consistent s \<Longrightarrow> consistent (run N s es)"
  unfolding run_def by (induction es arbitrary: s) (simp_all add: consistent_step)

text \<open>
  So in every state reached from the start the next request number is not in flight, and
  an identifier is selected when the detail view is mounted.
\<close>

lemma consistent_fresh: "consistent s \<Longrightarrow> map_of (inflight s) (issued s) = None"
  by (auto simp: consistent_def list_all_iff map_of_eq_None_iff)

lemma consistent_mounted: "consistent s \<Longrightarrow> details s = Some d \<Longrightarrow> selectedId s \<noteq> ''''"
  by (auto simp: consistent_def)

subsection \<open>The fetch of the detail view\<close>

lemma map_of_filter_other:
  "k \<noteq> r \<Longrightarrow> map_of (filter (\<lambda>p. fst p \<noteq> r) xs) k = map_of xs k"
  by (induction xs) auto

lemma step_select_other:
  assumes "details s = Some d" and "selectedId s \<noteq> ''''" and "b \<noteq> selectedId s" and "b \<noteq> ''''"
  shows "step N s (SelectMovie b) =
           s\<lparr>selectedId := b, details := Some (d\<lparr>isLoading := True\<rparr>),
             inflight := inflight s @ [(issued s, \<lparr>issuer = instance_no s, target = b\<rparr>)],
             issued := issued s + 1\<rparr>"
  using assms by (simp add: render_def handleSelectMovie_def selectedId_effect_def)

lemma step_select_first:
  assumes "selectedId s = ''''" and "b \<noteq> ''''"
  shows "step N s (SelectMovie b) =
           s\<lparr>selectedId := b, details := Some (initialDetails\<lparr>isLoading := True\<rparr>),
             instance_no := instance_no s + 1,
             inflight := inflight s @ [(issued s, \<lparr>issuer = instance_no s + 1, target = b\<rparr>)],
             issued := issued s + 1\<rparr>"
  using assms by (simp add: render_def handleSelectMovie_def selectedId_effect_def)

lemma step_settle_response:
  assumes "details s = Some d" and "map_of (inflight s) rid = Some rq" and "issuer rq = instance_no s"
  shows "step N s (Settle rid (Response status (Some data))) =
           s\<lparr>inflight := filter (\<lambda>p. fst p \<noteq> rid) (inflight s),
             details := Some (d\<lparr>movie := data, isLoading := False\<rparr>)\<rparr>"
  using assms by (simp add: getMovieDetails_settled_def)


lemma viewing_state:
  "a \<noteq> '''' \<Longrightarrow> viewing a =
     \<lparr>watched = [], selectedId = a, details = Some (initialDetails\<lparr>isLoading := True\<rparr>),
      instance_no = 1, inflight = [(0, \<lparr>issuer = 1, target = a\<rparr>)], issued = 1,
      unhandled = []\<rparr>"
  by (simp add: viewing_def step_select_first initialApp_def del: step.simps)

text \<open>
  C1, as the code has it. With the detail view open on one identifier and a request of
  this view in flight, a change of the selection to another identifier \<open>b\<close> issues a
  second request and leaves the first in flight. Each response that arrives then replaces
  the detail state: when the response to the first request arrives before the response
  for \<open>b\<close>, the detail shown in the end is the one for \<open>b\<close>; when it arrives after, the
  detail shown in the end is that of the first request, with \<open>b\<close> selected.
\<close>

theorem last_response_is_shown:
  assumes mounted: "details s = Some d" "selectedId s \<noteq> ''''"
    and a_inflight: "map_of (inflight s) ra = Some qa" "issuer qa = instance_no s"
    and fresh: "map_of (inflight s) (issued s) = None"
    and change: "b \<noteq> selectedId s" "b \<noteq> ''''"
  shows "selectedId (step N s (SelectMovie b)) = b
       \<and> map_of (inflight (step N s (SelectMovie b))) ra = Some qa
       \<and> map_of (inflight (step N s (SelectMovie b))) (issued s)
           = Some \<lparr>issuer = instance_no s, target = b\<rparr>
       \<and> details (run N (step N s (SelectMovie b))
             [Settle ra (Response sa (Some da)), Settle (issued s) (Response sb (Some db))])
           = Some (d\<lparr>movie := db, isLoading := False\<rparr>)
       \<and> details (run N (step N s (SelectMovie b))
             [Settle (issued s) (Response sb (Some db)), Settle ra (Response sa (Some da))])
           = Some (d\<lparr>movie := da, isLoading := False\<rparr>)
       \<and> selectedId (run N (step N s (SelectMovie b))
             [Settle (issued s) (Response sb (Some db)), Settle ra (Response sa (Some da))]) = b"
proof -
  note step.simps [simp del]
  let ?s1 = "step N s (SelectMovie b)"
  let ?rb = "issued s"
  let ?qb = "\<lparr>issuer = instance_no s, target = b\<rparr>"
  have s1: "?s1 = s\<lparr>selectedId := b, details := Some (d\<lparr>isLoading := True\<rparr>),
             inflight := inflight s @ [(?rb, ?qb)], issued := issued s + 1\<rparr>"
    by (rule step_select_other [OF mounted change])
  from a_inflight(1) fresh have ne: "ra \<noteq> ?rb" by auto
  have ia: "map_of (inflight ?s1) ra = Some qa"
    using a_inflight(1) by (simp add: s1 map_add_def)
  have ib: "map_of (inflight ?s1) ?rb = Some ?qb"
    using fresh by (simp add: s1 map_add_def)
  have d1: "details ?s1 = Some (d\<lparr>isLoading := True\<rparr>)" and n1: "instance_no ?s1 = instance_no s"
    and sel1: "selectedId ?s1 = b"
    by (simp_all add: s1)
  let ?s2 = "step N ?s1 (Settle ra (Response sa (Some da)))"
  have s2: "?s2 = ?s1\<lparr>inflight := filter (\<lambda>p. fst p \<noteq> ra) (inflight ?s1),
                     details := Some (d\<lparr>isLoading := True\<rparr>\<lparr>movie := da, isLoading := False\<rparr>)\<rparr>"
    by (rule step_settle_response [OF d1 ia]) (simp add: n1 a_inflight(2))
  have ib2: "map_of (inflight ?s2) ?rb = Some ?qb"
    using ib ne by (simp add: s2 map_of_filter_other)
  have d2: "details ?s2 = Some (d\<lparr>movie := da, isLoading := False\<rparr>)"
    by (simp add: s2)
  have n2: "instance_no ?s2 = instance_no s" by (simp add: s2 n1)
  have ab: "details (step N ?s2 (Settle ?rb (Response sb (Some db))))
            = Some (d\<lparr>movie := db, isLoading := False\<rparr>)"
    by (subst step_settle_response [OF d2 ib2]) (simp_all add: n2)
  let ?s3 = "step N ?s1 (Settle ?rb (Response sb (Some db)))"
  have s3: "?s3 = ?s1\<lparr>inflight := filter (\<lambda>p. fst p \<noteq> ?rb) (inflight ?s1),
                     details := Some (d\<lparr>isLoading := True\<rparr>\<lparr>movie := db, isLoading := False\<rparr>)\<rparr>"
    by (rule step_settle_response [OF d1 ib]) (simp add: n1)
  have ia3: "map_of (inflight ?s3) ra = Some qa"
    using ia ne by (simp add: s3 map_of_filter_other)
  have d3: "details ?s3 = Some (d\<lparr>movie := db, isLoading := False\<rparr>)"
    by (simp add: s3)
  have n3: "instance_no ?s3 = instance_no s" by (simp add: s3 n1)
  have sel3: "selectedId ?s3 = b" by (simp add: s3 sel1)
  have s4: "step N ?s3 (Settle ra (Response sa (Some da)))
            = ?s3\<lparr>inflight := filter (\<lambda>p. fst p \<noteq> ra) (inflight ?s3),
                  details := Some (d\<lparr>movie := db, isLoading := False\<rparr>\<lparr>movie := da, isLoading := False\<rparr>)\<rparr>"
    by (rule step_settle_response [OF d3 ia3]) (simp add: n3 a_inflight(2))
  have ba: "details (step N ?s3 (Settle ra (Response sa (Some da))))
            = Some (d\<lparr>movie := da, isLoading := False\<rparr>)"
    and selba: "selectedId (step N ?s3 (Settle ra (Response sa (Some da)))) = b"
    by (simp_all add: s4 sel3)
  show ?thesis
    using sel1 ia ib ab ba selba by (simp add: run_def)
qed

theorem last_response_is_shown_witness:
  "details (viewing ''A'') = Some (initialDetails\<lparr>isLoading := True\<rparr>)
   \<and> selectedId (viewing ''A'') \<noteq> ''''
   \<and> map_of (inflight (viewing ''A'')) 0 = Some \<lparr>issuer = 1, target = ''A''\<rparr>
   \<and> issuer \<lparr>issuer = 1, target = ''A''\<rparr> = instance_no (viewing ''A'')
   \<and> map_of (inflight (viewing ''A'')) (issued (viewing ''A'')) = None
   \<and> ''B'' \<noteq> selectedId (viewing ''A'') \<and> ''B'' \<noteq> ''''
   \<and> details (run decimal (step decimal (viewing ''A'') (SelectMovie ''B''))
        [Settle 0 (Response 200 (Some (detail ''A'' ''Alien''))),
         Settle (issued (viewing ''A'')) (Response 200 (Some (detail ''B'' ''Brazil'')))])
       = Some (initialDetails\<lparr>movie := detail ''B'' ''Brazil'', isLoading := False\<rparr>)
   \<and> details (run decimal (step decimal (viewing ''A'') (SelectMovie ''B''))
        [Settle (issued (viewing ''A'')) (Response 200 (Some (detail ''B'' ''Brazil''))),
         Settle 0 (Response 200 (Some (detail ''A'' ''Alien'')))])
       = Some (initialDetails\<lparr>movie := detail ''A'' ''Alien'', isLoading := False\<rparr>)"
  using last_response_is_shown
    [of "viewing ''A''" "initialDetails\<lparr>isLoading := True\<rparr>" 0 "\<lparr>issuer = 1, target = ''A''\<rparr>"
        "''B''" decimal 200 "detail ''A'' ''Alien''" 200 "detail ''B'' ''Brazil''"]
  by (simp add: viewing_state del: step.simps)

text \<open>
  The claim C1 fails on this run: the first selection is \<^verbatim>\<open>A\<close>, the selection changes to
  \<^verbatim>\<open>B\<close> while the request for \<^verbatim>\<open>A\<close> (number 0) is in flight, the response for \<^verbatim>\<open>B\<close>
  (request 1) arrives, and then the response for \<^verbatim>\<open>A\<close>. In the end \<^verbatim>\<open>B\<close> is selected and
  the detail shown is the one of \<^verbatim>\<open>A\<close>.
\<close>

theorem stale_response_is_shown:
  "inflight (run decimal (initialApp []) [SelectMovie ''A'', SelectMovie ''B''])
     = [(0, \<lparr>issuer = 1, target = ''A''\<rparr>), (1, \<lparr>issuer = 1, target = ''B''\<rparr>)]
   \<and> selectedId (run decimal (initialApp [])
        [SelectMovie ''A'', SelectMovie ''B'',
         Settle 1 (Response 200 (Some (detail ''B'' ''Brazil''))),
         Settle 0 (Response 200 (Some (detail ''A'' ''Alien'')))]) = ''B''
   \<and> map_option movie (details (run decimal (initialApp [])
        [SelectMovie ''A'', SelectMovie ''B'',
         Settle 1 (Response 200 (Some (detail ''B'' ''Brazil''))),
         Settle 0 (Response 200 (Some (detail ''A'' ''Alien'')))])) = Some (detail ''A'' ''Alien'')
   \<and> imdbID (detail ''A'' ''Alien'') = Val ''A''
   \<and> detail ''A'' ''Alien'' \<noteq> detail ''B'' ''Brazil''"
  by (simp add: run_def initialApp_def render_def handleSelectMovie_def selectedId_effect_def
      getMovieDetails_settled_def detail_def initialDetails_def)




subsection \<open>Parsing the text of a value\<close>

lemma stringify_None_iff: "JSON_stringify v = None \<longleftrightarrow> v = JUndefined"
  by (cases v rule: JSON_stringify.cases) simp_all

lemma stringify_starts: "JSON_stringify v = Some t \<Longrightarrow> starts_value t"
  by (cases v rule: JSON_stringify.cases) auto

lemma element_tokens_starts: "starts_value (element_tokens x)"
proof (cases "JSON_stringify x")
  case None
  then show ?thesis by (simp add: element_tokens_def)
next
  case (Some t)
  then show ?thesis using stringify_starts [OF Some] by (simp add: element_tokens_def)
qed

lemma parse_elements_separate:
  assumes "xs \<noteq> []"
    and "\<And>x rest. x \<in> set xs \<Longrightarrow> parse_value (element_tokens x @ rest) = Some (revived x, rest)"
  shows "parse_elements (separate (map element_tokens xs) @ RBracket # rest) = Some (map revived xs, rest)"
  using assms
proof (induction xs)
  case Nil then show ?case by simp
next
  case (Cons x xs)
  show ?case
  proof (cases xs)
    case Nil
    have "parse_value (element_tokens x @ RBracket # rest) = Some (revived x, RBracket # rest)"
      by (rule Cons.prems(2)) simp
    then show ?thesis using Nil by (simp add: parse_elements.simps)
  next
    case (Cons y ys)
    let ?tail = "separate (map element_tokens xs) @ RBracket # rest"
    have pv: "parse_value (element_tokens x @ Comma # ?tail) = Some (revived x, Comma # ?tail)"
      by (rule Cons.prems(2)) simp
    have IH: "parse_elements ?tail = Some (map revived xs, rest)"
      using Cons.IH Cons.prems(2) Cons by simp
    have sep: "separate (map element_tokens (x # xs))
               = element_tokens x @ Comma # separate (map element_tokens xs)"
      using Cons by simp
    show ?thesis
      unfolding sep
      by (subst parse_elements.simps) (simp add: pv IH)
  qed
qed

lemma concat_members:
  "concat (map (\<lambda>p. case JSON_stringify (snd p) of None \<Rightarrow> []
                      | Some t \<Rightarrow> [StringLit (fst p) # Colon # t]) ps)
   = map member_tokens (filter (\<lambda>p. snd p \<noteq> JUndefined) ps)"
  by (induction ps) (auto simp: member_tokens_def stringify_None_iff split: option.splits)

lemma parse_members_separate:
  assumes "ps \<noteq> []"
    and "\<And>p rest. p \<in> set ps \<Longrightarrow>
           parse_value (the (JSON_stringify (snd p)) @ rest) = Some (revived (snd p), rest)"
  shows "parse_members (separate (map member_tokens ps) @ RBrace # rest)
         = Some (map (\<lambda>p. (fst p, revived (snd p))) ps, rest)"
  using assms
proof (induction ps)
  case Nil then show ?case by simp
next
  case (Cons p ps)
  show ?case
  proof (cases ps)
    case Nil
    have "parse_value (the (JSON_stringify (snd p)) @ RBrace # rest)
          = Some (revived (snd p), RBrace # rest)"
      by (rule Cons.prems(2)) simp
    then show ?thesis using Nil by (simp add: parse_members.simps member_tokens_def)
  next
    case (Cons q qs)
    let ?tail = "separate (map member_tokens ps) @ RBrace # rest"
    have pv: "parse_value (the (JSON_stringify (snd p)) @ Comma # ?tail)
              = Some (revived (snd p), Comma # ?tail)"
      by (rule Cons.prems(2)) simp
    have IH: "parse_members ?tail = Some (map (\<lambda>p. (fst p, revived (snd p))) ps, rest)"
      using Cons.IH Cons.prems(2) Cons by simp
    have sep: "separate (map member_tokens (p # ps)) @ RBrace # rest
               = StringLit (fst p) # Colon # the (JSON_stringify (snd p)) @ Comma # ?tail"
      using Cons by (simp add: member_tokens_def)
    show ?thesis
      unfolding sep
      by (subst parse_members.simps) (simp add: pv IH)
  qed
qed

lemma define_property_fresh:
  "k \<notin> fst ` set obj \<Longrightarrow> define_property k v obj = obj @ [(k, v)]"
  by (induction obj) auto

lemma define_all_distinct:
  "distinct (map fst (obj @ ms)) \<Longrightarrow>
   foldl (\<lambda>obj m. define_property (fst m) (snd m) obj) obj ms = obj @ ms"
proof (induction ms arbitrary: obj)
  case Nil then show ?case by simp
next
  case (Cons m ms)
  from Cons.prems have fresh: "fst m \<notin> fst ` set obj" by auto
  from Cons.prems have "distinct (map fst ((obj @ [m]) @ ms))" by simp
  from Cons.IH [OF this] show ?case
    by (simp add: define_property_fresh [OF fresh])
qed

lemma separate_starts:
  "ts \<noteq> [] \<Longrightarrow> starts_value (hd ts) \<Longrightarrow> starts_value (separate ts)"
  by (cases ts rule: separate.cases) (auto elim: starts_value.elims)

lemma parse_value_array:
  assumes "starts_value ts" and "parse_elements (ts @ rest) = Some (vs, r')"
  shows "parse_value (LBracket # ts @ rest) = Some (JArray vs, r')"
proof -
  from assms(1) obtain a r where t: "ts = a # r" and a: "a \<noteq> RBracket"
    by (auto elim: starts_value.elims)
  from assms(2) have "parse_elements (a # r @ rest) = Some (vs, r')" by (simp add: t)
  then show ?thesis using a unfolding t
    by (subst parse_value.simps) (auto split: token.splits)
qed

lemma parse_value_object:
  assumes "ms \<noteq> []" and "parse_members (separate (map member_tokens ms) @ rest) = Some (kvs, r')"
  shows "parse_value (LBrace # separate (map member_tokens ms) @ rest)
         = Some (JObject (foldl (\<lambda>obj m. define_property (fst m) (snd m) obj) [] kvs), r')"
proof -
  from assms(1) obtain k r where t: "separate (map member_tokens ms) = StringLit k # r"
    by (cases "map member_tokens ms" rule: separate.cases) (auto simp: member_tokens_def)
  from assms(2) have "parse_members (StringLit k # r @ rest) = Some (kvs, r')" by (simp add: t)
  then show ?thesis
    by (subst parse_value.simps) (simp add: t)
qed

text \<open>
  The parser reads the text of a value back, up to what the text does not keep: after
  the text of \<open>v\<close> it returns \<open>revived v\<close> and the rest of the input.
\<close>

lemma parse_stringify:
  "proper v \<Longrightarrow> JSON_stringify v = Some t \<Longrightarrow> parse_value (t @ rest) = Some (revived v, rest)"
proof (induction v arbitrary: t rest)
  case JUndefined
  then show ?case by simp
next
  case JNull
  then show ?case by (auto simp: parse_value.simps)
next
  case (JBool b)
  then show ?case by (auto simp: parse_value.simps)
next
  case (JNumber n)
  then show ?case by (cases n) (auto simp: parse_value.simps)
next
  case (JString s)
  then show ?case by (auto simp: parse_value.simps)
next
  case (JArray xs)
  have t: "t = LBracket # separate (map element_tokens xs) @ [RBracket]"
    using JArray.prems(2) by (simp add: element_tokens_def [abs_def])
  show ?case
  proof (cases "xs = []")
    case True
    then show ?thesis by (simp add: t parse_value.simps)
  next
    case False
    have elem: "parse_value (element_tokens x @ r) = Some (revived x, r)" if "x \<in> set xs" for x r
    proof (cases "JSON_stringify x")
      case None
      then have "x = JUndefined" by (simp add: stringify_None_iff)
      then show ?thesis by (simp add: element_tokens_def parse_value.simps)
    next
      case (Some tx)
      from that JArray.prems(1) have "proper x" by (simp add: list_all_iff)
      from JArray.IH [OF that this Some] show ?thesis by (simp add: element_tokens_def Some)
    qed
    have pe: "parse_elements (separate (map element_tokens xs) @ RBracket # rest)
              = Some (map revived xs, rest)"
      by (rule parse_elements_separate [OF False elem])
    have st: "starts_value (separate (map element_tokens xs))"
      using False by (intro separate_starts) (simp_all add: hd_map element_tokens_starts)
    from parse_value_array [OF st, of "RBracket # rest"] pe show ?thesis
      by (simp add: t)
  qed
next
  case (JObject ps)
  let ?kept = "filter (\<lambda>p. snd p \<noteq> JUndefined) ps"
  have t: "t = LBrace # separate (map member_tokens ?kept) @ [RBrace]"
    using JObject.prems(2) by (simp add: concat_members)
  show ?case
  proof (cases "?kept = []")
    case True
    then show ?thesis by (simp add: t parse_value.simps)
  next
    case False
    have mem: "parse_value (the (JSON_stringify (snd p)) @ r) = Some (revived (snd p), r)"
      if "p \<in> set ?kept" for p r
    proof -
      from that have p: "p \<in> set ps" and "snd p \<noteq> JUndefined" by simp_all
      then obtain tp where tp: "JSON_stringify (snd p) = Some tp"
        using stringify_None_iff [of "snd p"] by (cases "JSON_stringify (snd p)") auto
      from p JObject.prems(1) have "proper (snd p)" by (simp add: list_all_iff)
      from JObject.IH [OF p _ this tp, of r] tp show ?thesis
        by (cases p) simp
    qed
    have pm: "parse_members (separate (map member_tokens ?kept) @ RBrace # rest)
              = Some (map (\<lambda>p. (fst p, revived (snd p))) ?kept, rest)"
      by (rule parse_members_separate [OF False mem])
    have "distinct (map fst ?kept)"
      using JObject.prems(1) by (simp add: distinct_map_filter)
    then have "distinct (map fst ([] @ map (\<lambda>p. (fst p, revived (snd p))) ?kept))"
      by (simp add: comp_def)
    from define_all_distinct [OF this]
    have da: "foldl (\<lambda>obj m. define_property (fst m) (snd m) obj) []
                (map (\<lambda>p. (fst p, revived (snd p))) ?kept)
              = map (\<lambda>p. (fst p, revived (snd p))) ?kept"
      by simp
    from parse_value_object [OF False, where rest = "RBrace # rest"] pm show ?thesis
      by (simp add: t da)
  qed
qed

lemma JSON_parse_stringify:
  "proper v \<Longrightarrow> JSON_stringify v = Some t \<Longrightarrow> JSON_parse t = Inr (revived v)"
  using parse_stringify [of v t "[]"] by (simp add: JSON_parse_def)

subsection \<open>The watched list through the storage\<close>

lemma map_of_revived:
  "distinct (map fst ps) \<Longrightarrow>
   map_of (map (\<lambda>p. (fst p, revived (snd p))) (filter (\<lambda>p. snd p \<noteq> JUndefined) ps)) k
   = (case map_of ps k of None \<Rightarrow> None
      | Some v \<Rightarrow> if v = JUndefined then None else Some (revived v))"
proof (induction ps)
  case Nil then show ?case by simp
next
  case (Cons p ps)
  then have IH: "map_of (map (\<lambda>p. (fst p, revived (snd p))) (filter (\<lambda>p. snd p \<noteq> JUndefined) ps)) k
      = (case map_of ps k of None \<Rightarrow> None
         | Some v \<Rightarrow> if v = JUndefined then None else Some (revived v))"
    by simp
  from Cons.prems have "fst p \<notin> fst ` set ps" by simp
  then have none: "map_of ps (fst p) = None" by (simp add: map_of_eq_None_iff)
  show ?case
    by (cases p) (use IH none in \<open>auto split: option.splits\<close>)
qed

lemma property_revived:
  "distinct (map fst ps) \<Longrightarrow>
   property (map (\<lambda>p. (fst p, revived (snd p))) (filter (\<lambda>p. snd p \<noteq> JUndefined) ps)) k
   = reread (property ps k)"
  by (simp add: property_def map_of_revived reread_def split: option.splits)

lemma as_string_revived:
  "as_string (reread (js_string x)) = Some x"
  by (cases x) (simp_all add: reread_def)

lemma as_number_revived:
  "as_number (reread (js_number x)) = Some (revived_number x)"
proof (cases x)
  case (Val n)
  then show ?thesis by (cases n) (simp_all add: reread_def)
qed (simp_all add: reread_def)

lemma as_WatchedMovie_revived:
  "as_WatchedMovie (revived (js_WatchedMovie m)) = Some (revived_WatchedMovie m)"
proof -
  define ps where "ps =
    [(''imdbID'', js_string (imdbID m)), (''Title'', js_string (Title m)),
     (''Year'', js_string (Year m)), (''Poster'', js_string (Poster m)),
     (''runtime'', js_number (runtime m)), (''imdbRating'', js_number (imdbRating m)),
     (''userRating'', js_number (userRating m)),
     (''countRatingDecisions'', js_number (countRatingDecisions m))]"
  have d: "distinct (map fst ps)" by (simp add: ps_def)
  have p: "property ps ''imdbID'' = js_string (imdbID m)"
    "property ps ''Title'' = js_string (Title m)"
    "property ps ''Year'' = js_string (Year m)"
    "property ps ''Poster'' = js_string (Poster m)"
    "property ps ''runtime'' = js_number (runtime m)"
    "property ps ''imdbRating'' = js_number (imdbRating m)"
    "property ps ''userRating'' = js_number (userRating m)"
    "property ps ''countRatingDecisions'' = js_number (countRatingDecisions m)"
    by (simp_all add: ps_def property_def)
  have "as_WatchedMovie (revived (JObject ps)) = Some (revived_WatchedMovie m)"
    by (simp add: property_revived [OF d] p as_string_revived as_number_revived
        revived_WatchedMovie_def)
  then show ?thesis by (simp add: js_WatchedMovie_def ps_def)
qed

lemma as_watched_revived:
  "as_watched (revived (js_watched ws)) = Some (map revived_WatchedMovie ws)"
proof -
  have "those (map as_WatchedMovie (map revived (map js_WatchedMovie ws)))
        = Some (map revived_WatchedMovie ws)"
    by (induction ws) (simp_all add: as_WatchedMovie_revived)
  then show ?thesis by (simp add: js_watched_def)
qed

lemma proper_js_string: "proper (js_string x)"
  by (cases x) simp_all

lemma proper_js_number: "proper (js_number x)"
  by (cases x) simp_all

lemma proper_js_watched: "proper (js_watched ws)"
  by (simp add: js_watched_def js_WatchedMovie_def list_all_iff proper_js_string proper_js_number)

text \<open>Whatever the list, loading after saving gives the list with its entries revived.\<close>

lemma load_save_watched:
  "load_watched (save_watched ws localStorage) = Inr (Some (map revived_WatchedMovie ws))"
proof -
  obtain t where t: "JSON_stringify (js_watched ws) = Some t"
    by (simp add: js_watched_def)
  have "JSON_parse t = Inr (revived (js_watched ws))"
    by (rule JSON_parse_stringify [OF proper_js_watched t])
  moreover have "revived (js_watched ws) \<noteq> JNull" "revived (js_watched ws) \<noteq> JUndefined"
    by (simp_all add: js_watched_def)
  ultimately show ?thesis
    by (simp add: load_watched_def save_watched_def useLocalStorageState_initial_def
        useLocalStorageState_effect_def t as_watched_revived)
qed

lemma revived_number_finite: "finite_number x \<Longrightarrow> revived_number x = x"
  by (cases x rule: finite_number.cases) simp_all

lemma revived_WatchedMovie_finite: "finite_numbers m \<Longrightarrow> revived_WatchedMovie m = m"
  by (simp add: finite_numbers_def revived_WatchedMovie_def revived_number_finite)
text \<open>
  C5, as the code has it. For every watched list whose numbers are finite, loading after
  saving returns the list: no entry and no value of a property is lost or changed; a
  property that is missing is missing again.
\<close>

theorem load_after_save_watched:
  assumes "list_all finite_numbers ws"
  shows "load_watched (save_watched ws localStorage) = Inr (Some ws)"
proof -
  from assms have "map revived_WatchedMovie ws = ws"
    by (induction ws) (simp_all add: revived_WatchedMovie_finite)
  then show ?thesis by (simp add: load_save_watched)
qed

theorem load_after_save_watched_witness:
  "list_all finite_numbers
     [entry ''tt1'' 120 (15 / 2) 8, (entry ''tt2'' 90 6 4)\<lparr>Title := Val ''Two'', imdbRating := Null\<rparr>]
   \<and> load_watched (save_watched
        [entry ''tt1'' 120 (15 / 2) 8, (entry ''tt2'' 90 6 4)\<lparr>Title := Val ''Two'', imdbRating := Null\<rparr>]
        Map.empty)
       = Inr (Some [entry ''tt1'' 120 (15 / 2) 8,
                    (entry ''tt2'' 90 6 4)\<lparr>Title := Val ''Two'', imdbRating := Null\<rparr>])
   \<and> save_watched [entry ''tt1'' 120 (15 / 2) 8] Map.empty ''watched''
       = Some [LBracket, LBrace,
               StringLit ''imdbID'', Colon, StringLit ''tt1'', Comma,
               StringLit ''runtime'', Colon, NumberLit 120, Comma,
               StringLit ''imdbRating'', Colon, NumberLit (15 / 2), Comma,
               StringLit ''userRating'', Colon, NumberLit 8, Comma,
               StringLit ''countRatingDecisions'', Colon, NumberLit 1,
               RBrace, RBracket]"
  using load_after_save_watched
    [of "[entry ''tt1'' 120 (15 / 2) 8, (entry ''tt2'' 90 6 4)\<lparr>Title := Val ''Two'', imdbRating := Null\<rparr>]"
        Map.empty]
  by (simp add: finite_numbers_def entry_def save_watched_def useLocalStorageState_effect_def
      js_watched_def js_WatchedMovie_def)

text \<open>
  The claim C5 fails on an entry whose runtime is \<^verbatim>\<open>NaN\<close>, which is what \<^verbatim>\<open>handleAdd\<close>
  stores for a movie whose runtime text is \<^verbatim>\<open>N/A\<close>: the text written for the entry has
  \<^verbatim>\<open>null\<close> for the runtime, and so has the entry loaded from it. The mean of the runtimes
  is \<^verbatim>\<open>NaN\<close> before and 0 after.
\<close>

theorem load_after_save_loses_NaN:
  "runtime (newWatchedMovie decimal ''tt1''
      (initialDetails\<lparr>movie := (detail ''tt1'' ''One'')\<lparr>Runtime := Val ''N/A''\<rparr>,
                      Details.userRating := Fin 8\<rparr>)) = Val NaN
   \<and> load_watched (save_watched [(entry ''tt1'' 0 8 9)\<lparr>runtime := Val NaN\<rparr>] Map.empty)
       = Inr (Some [(entry ''tt1'' 0 8 9)\<lparr>runtime := Null\<rparr>])
   \<and> [(entry ''tt1'' 0 8 9)\<lparr>runtime := Null\<rparr>] \<noteq> [(entry ''tt1'' 0 8 9)\<lparr>runtime := Val NaN\<rparr>]
   \<and> avgRuntime [(entry ''tt1'' 0 8 9)\<lparr>runtime := Val NaN\<rparr>] = NaN
   \<and> avgRuntime [(entry ''tt1'' 0 8 9)\<lparr>runtime := Null\<rparr>] = Fin 0"
  by (simp add: load_save_watched revived_WatchedMovie_def entry_def newWatchedMovie_def
      initialDetails_def detail_def decimal_def is_digit_def avgRuntime_def runtimes_def
      average_def binary64_eval)

subsection \<open>Loading the initial state\<close>

lemma JSON_parse_null: "JSON_parse [NullLit] = Inr JNull"
  by (simp add: JSON_parse_def parse_value.simps)

text \<open>
  C2, as the code has it. When the storage has no item under the key, and when the item
  is the text \<^verbatim>\<open>null\<close>, the state starts from the initial state, which is the empty list
  for the watched list. When the item does not parse, the exception of \<^verbatim>\<open>JSON.parse\<close>
  leaves the initialiser: no state is returned.
\<close>

theorem useLocalStorageState_initial_cases:
  "(localStorage key = None \<longrightarrow>
      useLocalStorageState_initial initialState key localStorage = Inr initialState)
   \<and> (localStorage key = Some [NullLit] \<longrightarrow>
      useLocalStorageState_initial initialState key localStorage = Inr initialState)
   \<and> (localStorage key = Some text \<and> JSON_parse text = Inl e \<longrightarrow>
      useLocalStorageState_initial initialState key localStorage = Inl e)
   \<and> (localStorage ''watched'' = None \<longrightarrow> load_watched localStorage = Inr (Some []))
   \<and> (localStorage ''watched'' = Some text \<and> JSON_parse text = Inl e \<longrightarrow>
      load_watched localStorage = Inl e)"
  by (simp add: useLocalStorageState_initial_def load_watched_def JSON_parse_null)

theorem useLocalStorageState_initial_cases_witness:
  "Map.empty ''watched'' = None
   \<and> useLocalStorageState_initial (JArray []) ''watched'' Map.empty = Inr (JArray [])
   \<and> load_watched Map.empty = Inr (Some [])
   \<and> [''watched'' \<mapsto> [LBracket, LBrace, StringLit ''imdbID'', Colon]] ''watched''
       = Some [LBracket, LBrace, StringLit ''imdbID'', Colon]
   \<and> JSON_parse [LBracket, LBrace, StringLit ''imdbID'', Colon] = Inl SyntaxError
   \<and> load_watched [''watched'' \<mapsto> [LBracket, LBrace, StringLit ''imdbID'', Colon]] = Inl SyntaxError"
  using useLocalStorageState_initial_cases [of Map.empty "''watched''" "JArray []" "[]" SyntaxError]
    useLocalStorageState_initial_cases
      [of "[''watched'' \<mapsto> [LBracket, LBrace, StringLit ''imdbID'', Colon]]" "''watched''" "JArray []"
          "[LBracket, LBrace, StringLit ''imdbID'', Colon]" SyntaxError]
  by (simp add: JSON_parse_def parse_value.simps parse_elements.simps parse_members.simps)

text \<open>
  The claim C2 fails on a stored text that does not parse, such as one cut off after its
  first tokens, or the word \<^verbatim>\<open>undefined\<close>: loading raises \<^verbatim>\<open>SyntaxError\<close> and returns no
  list.
\<close>

theorem unparseable_item_raises:
  "load_watched [''watched'' \<mapsto> [LBracket, LBrace, StringLit ''imdbID'', Colon]] = Inl SyntaxError
   \<and> load_watched [''watched'' \<mapsto> [Other ''undefined'']] = Inl SyntaxError
   \<and> load_watched [''watched'' \<mapsto> []] = Inl SyntaxError"
  by (simp add: load_watched_def useLocalStorageState_initial_def JSON_parse_def
      parse_value.simps parse_elements.simps parse_members.simps)

end
